theory Spec2Isabelle
  imports Main "HOL-Library.Word" "HOL-Library.Monad_Syntax"
begin

section \<open>Field and hash primitives\<close>

text \<open>
  The BN254 scalar field modulus, the constant \<open>F\<close> of \<^verbatim>\<open>crypto/noteDerivation.ts\<close>
  (and \<open>SNARK_SCALAR_FIELD\<close> of \<^verbatim>\<open>services/WithdrawalContextService.ts\<close>).
  JavaScript's \<open>bigint\<close> is an unbounded integer: \<open>int\<close>.
\<close>

definition F :: int where
  "F = 21888242871839275222246405745257275088548364400416034343698204186575808495617"

definition SNARK_SCALAR_FIELD :: int where
  "SNARK_SCALAR_FIELD = 21888242871839275222246405745257275088548364400416034343698204186575808495617"

text \<open>
  JavaScript's \<open>%\<close> on bigints truncates towards zero: the result has the sign of the
  dividend.
\<close>

definition js_rem :: "int \<Rightarrow> int \<Rightarrow> int" where
  "js_rem a b = sgn a * (\<bar>a\<bar> mod \<bar>b\<bar>)"





text \<open>\<^verbatim>\<open>const modF = (x: bigint) => ((x % F) + F) % F;\<close>\<close>

definition modF :: "int \<Rightarrow> int" where
  "modF x = js_rem (js_rem x F + F) F"

text \<open>
  Byte strings (the values that viem writes as \<open>0x\<close>-prefixed hex) are lists of
  bytes. The digest of \<open>keccak256\<close> is always 32 bytes, a 256-bit word.
\<close>

type_synonym bytes = "8 word list"

text \<open>
  The library functions the code imports (\<open>poseidon-lite\<close>, \<open>viem\<close>) are parameters
  of the model. \<open>getAddress\<close> throws on a string that is not an address, and so does
  the packed encoding of an \<open>address\<close> value: \<open>None\<close> is the exception.
\<close>

record prims =
  keccak256 :: "bytes \<Rightarrow> 256 word"
  poseidon1 :: "int \<Rightarrow> int"
  poseidon2 :: "int \<Rightarrow> int \<Rightarrow> int"
  poseidon3 :: "int \<Rightarrow> int \<Rightarrow> int \<Rightarrow> int"
  getAddress :: "string \<Rightarrow> string option"
  addressBytes :: "string \<Rightarrow> bytes option"

text \<open>
  \<^verbatim>\<open>const hexToBigInt = (hex) => BigInt(hex);\<close> applied to a digest is the
  big-endian value of its 32 bytes.
\<close>

definition digestToBigInt :: "256 word \<Rightarrow> int" where
  "digestToBigInt w = uint w"

definition digestBytes :: "256 word \<Rightarrow> bytes" where
  "digestBytes w = map (\<lambda>i. ucast (drop_bit (8 * (31 - i)) w)) [0..<32]"

text \<open>\<^verbatim>\<open>const fieldFromKeccak = (bytes) => modF(hexToBigInt(keccak256(bytes)));\<close>\<close>

definition fieldFromKeccak :: "prims \<Rightarrow> bytes \<Rightarrow> int" where
  "fieldFromKeccak P b = modF (digestToBigInt (keccak256 P b))"

subsection \<open>Packed encoding\<close>

text \<open>
  viem's \<open>encodePacked\<close>, for the four types the code packs: an \<open>address\<close> is its
  20 bytes, a \<open>uint64\<close> is 8 bytes big-endian (a value outside \<open>[0, 2^64)\<close> throws),
  a \<open>bytes32\<close> is its 32 bytes, a \<open>string\<close> is its raw bytes.
\<close>

datatype packed = PAddress string | PUint64 int | PBytes32 "256 word" | PString string

definition uint64Bytes :: "int \<Rightarrow> bytes" where
  "uint64Bytes v = map (\<lambda>i. word_of_int (v div 256 ^ (7 - i))) [0..<8]"

definition stringBytes :: "string \<Rightarrow> bytes" where
  "stringBytes s = map (\<lambda>c. of_char c) s"

fun encodeOne :: "prims \<Rightarrow> packed \<Rightarrow> bytes option" where
  "encodeOne P (PAddress a) = addressBytes P a"
| "encodeOne P (PUint64 v) = (if 0 \<le> v \<and> v < 2 ^ 64 then Some (uint64Bytes v) else None)"
| "encodeOne P (PBytes32 w) = Some (digestBytes w)"
| "encodeOne P (PString s) = Some (stringBytes s)"

fun encodePacked :: "prims \<Rightarrow> packed list \<Rightarrow> bytes option" where
  "encodePacked P [] = Some []"
| "encodePacked P (v # vs) =
     (case encodeOne P v of
        None \<Rightarrow> None
      | Some b \<Rightarrow> (case encodePacked P vs of None \<Rightarrow> None | Some bs \<Rightarrow> Some (b @ bs)))"

section \<open>Strings and big integers\<close>

text \<open>
  JavaScript strings are modelled as \<open>string\<close>, with code units below 256. The white
  space that \<open>String.prototype.trim\<close> and \<open>BigInt(string)\<close> strip is then TAB, LF,
  VT, FF, CR, SP and NBSP.
\<close>

definition is_ws :: "char \<Rightarrow> bool" where
  "is_ws c = (of_char c \<in> {9, 10, 11, 12, 13, 32, 160 :: int})"

definition js_trim :: "string \<Rightarrow> string" where
  "js_trim s = rev (dropWhile is_ws (rev (dropWhile is_ws s)))"

definition digit_val :: "char \<Rightarrow> int option" where
  "digit_val c =
     (let n = (of_char c :: int) in
      if 48 \<le> n \<and> n \<le> 57 then Some (n - 48)
      else if 97 \<le> n \<and> n \<le> 102 then Some (n - 87)
      else if 65 \<le> n \<and> n \<le> 70 then Some (n - 55)
      else None)"

fun digits_val :: "int \<Rightarrow> int \<Rightarrow> string \<Rightarrow> int option" where
  "digits_val b acc [] = Some acc"
| "digits_val b acc (c # cs) =
     (case digit_val c of
        None \<Rightarrow> None
      | Some d \<Rightarrow> if d < b then digits_val b (acc * b + d) cs else None)"

definition parse_digits :: "int \<Rightarrow> string \<Rightarrow> int option" where
  "parse_digits b ds = (if ds = [] then None else digits_val b 0 ds)"

text \<open>
  \<open>BigInt(string)\<close> (ECMAScript StringToBigInt): the trimmed string is empty (zero),
  an optionally signed decimal literal, or an unsigned literal with prefix \<open>0x\<close>,
  \<open>0o\<close> or \<open>0b\<close>; anything else throws a SyntaxError (\<open>None\<close>).
\<close>

definition js_BigInt :: "string \<Rightarrow> int option" where
  "js_BigInt s =
     (let t = js_trim s in
      if t = [] then Some 0
      else if take 2 t = ''0x'' \<or> take 2 t = ''0X'' then parse_digits 16 (drop 2 t)
      else if take 2 t = ''0o'' \<or> take 2 t = ''0O'' then parse_digits 8 (drop 2 t)
      else if take 2 t = ''0b'' \<or> take 2 t = ''0B'' then parse_digits 2 (drop 2 t)
      else if hd t = CHR ''-'' then map_option (\<lambda>n. - n) (parse_digits 10 (tl t))
      else if hd t = CHR ''+'' then parse_digits 10 (tl t)
      else parse_digits 10 t)"

text \<open>
  \<open>BigInt.prototype.toString(radix)\<close>, for a radix from 2 to 16: the digits of the
  absolute value, most significant first, after the sign.
\<close>

definition digit_char :: "int \<Rightarrow> char" where
  "digit_char d = (if d < 10 then char_of (48 + d) else char_of (87 + d))"

function radix_digits :: "int \<Rightarrow> int \<Rightarrow> string" where
  "radix_digits b n =
     (if b < 2 \<or> n < b then [digit_char n]
      else radix_digits b (n div b) @ [digit_char (n mod b)])"
  by pat_completeness auto
termination
proof (relation "measure (\<lambda>(b, n). nat n)")
  fix b n :: int
  assume "\<not> (b < 2 \<or> n < b)"
  then have "0 < n" "1 < b" by simp_all
  then have "n div b < n" by (rule int_div_less_self)
  then show "((b, n div b), (b, n)) \<in> measure (\<lambda>(b, n). nat n)" using \<open>0 < n\<close> by simp
qed simp

declare radix_digits.simps [simp del]

definition toStringRadix :: "int \<Rightarrow> int \<Rightarrow> string" where
  "toStringRadix b x =
     (if x < 0 then CHR ''-'' # radix_digits b (- x) else radix_digits b x)"

definition toString :: "int \<Rightarrow> string" where
  "toString x = toStringRadix 10 x"

section \<open>Note derivation\<close>

text \<open>A user key is a string or a bigint (\<^verbatim>\<open>userKey: string | bigint\<close>).\<close>

datatype user_key = KeyBig int | KeyStr string

definition hexToBigInt :: "string \<Rightarrow> int option" where
  "hexToBigInt hex = js_BigInt hex"

definition startsWith :: "string \<Rightarrow> string \<Rightarrow> bool" where
  "startsWith s p = (take (length p) s = p)"

fun parseUserKey :: "user_key \<Rightarrow> int option" where
  "parseUserKey (KeyBig x) = Some (modF x)"
| "parseUserKey (KeyStr userKey) =
     (let s = js_trim userKey in
      if startsWith s ''0x'' then map_option modF (hexToBigInt s)
      else map_option modF (js_BigInt s))"

definition contextField :: "prims \<Rightarrow> string \<Rightarrow> int \<Rightarrow> int \<Rightarrow> 256 word \<Rightarrow> int option" where
  "contextField P poolAddress depositIndex changeIndex tag =
     (case getAddress P poolAddress of
        None \<Rightarrow> None
      | Some addr \<Rightarrow>
         (case encodePacked P [PAddress addr, PUint64 depositIndex, PUint64 changeIndex, PBytes32 tag] of
            None \<Rightarrow> None
          | Some packed \<Rightarrow> Some (fieldFromKeccak P packed)))"

definition prf2 :: "prims \<Rightarrow> int \<Rightarrow> int \<Rightarrow> int \<Rightarrow> int" where
  "prf2 P key ctx domn = modF (poseidon2 P key (modF (poseidon2 P ctx domn)))"

text \<open>
  \<^verbatim>\<open>const TAG_X = keccak256(encodePacked(['string'], ['shinobi.cash:X']));\<close>
  The packed encoding of one string is its bytes, and never throws.
\<close>

definition tagOf :: "prims \<Rightarrow> string \<Rightarrow> 256 word" where
  "tagOf P name = keccak256 P (stringBytes name)"

definition TAG_DEPOSIT_NULLIFIER :: "prims \<Rightarrow> 256 word" where
  "TAG_DEPOSIT_NULLIFIER P = tagOf P ''shinobi.cash:DepositNullifierV1''"

definition TAG_DEPOSIT_SECRET :: "prims \<Rightarrow> 256 word" where
  "TAG_DEPOSIT_SECRET P = tagOf P ''shinobi.cash:DepositSecretV1''"

definition TAG_CHANGE_NULLIFIER :: "prims \<Rightarrow> 256 word" where
  "TAG_CHANGE_NULLIFIER P = tagOf P ''shinobi.cash:ChangeNullifierV1''"

definition TAG_CHANGE_SECRET :: "prims \<Rightarrow> 256 word" where
  "TAG_CHANGE_SECRET P = tagOf P ''shinobi.cash:ChangeSecretV1''"

definition TAG_REFUND_NULLIFIER :: "prims \<Rightarrow> 256 word" where
  "TAG_REFUND_NULLIFIER P = tagOf P ''shinobi.cash:RefundNullifierV1''"

definition TAG_REFUND_SECRET :: "prims \<Rightarrow> 256 word" where
  "TAG_REFUND_SECRET P = tagOf P ''shinobi.cash:RefundSecretV1''"

definition DOM_DEPOSIT_NULLIFIER :: "prims \<Rightarrow> int" where
  "DOM_DEPOSIT_NULLIFIER P = fieldFromKeccak P (digestBytes (TAG_DEPOSIT_NULLIFIER P))"

definition DOM_DEPOSIT_SECRET :: "prims \<Rightarrow> int" where
  "DOM_DEPOSIT_SECRET P = fieldFromKeccak P (digestBytes (TAG_DEPOSIT_SECRET P))"

definition DOM_CHANGE_NULLIFIER :: "prims \<Rightarrow> int" where
  "DOM_CHANGE_NULLIFIER P = fieldFromKeccak P (digestBytes (TAG_CHANGE_NULLIFIER P))"

definition DOM_CHANGE_SECRET :: "prims \<Rightarrow> int" where
  "DOM_CHANGE_SECRET P = fieldFromKeccak P (digestBytes (TAG_CHANGE_SECRET P))"

definition DOM_REFUND_NULLIFIER :: "prims \<Rightarrow> int" where
  "DOM_REFUND_NULLIFIER P = fieldFromKeccak P (digestBytes (TAG_REFUND_NULLIFIER P))"

definition DOM_REFUND_SECRET :: "prims \<Rightarrow> int" where
  "DOM_REFUND_SECRET P = fieldFromKeccak P (digestBytes (TAG_REFUND_SECRET P))"

definition deriveDepositNullifier :: "prims \<Rightarrow> user_key \<Rightarrow> string \<Rightarrow> int \<Rightarrow> int option" where
  "deriveDepositNullifier P userKey poolAddress depositIndex =
     do { k \<leftarrow> parseUserKey userKey;
          ctx \<leftarrow> contextField P poolAddress depositIndex 0 (TAG_DEPOSIT_NULLIFIER P);
          Some (prf2 P k ctx (DOM_DEPOSIT_NULLIFIER P)) }"

definition deriveDepositSecret :: "prims \<Rightarrow> user_key \<Rightarrow> string \<Rightarrow> int \<Rightarrow> int option" where
  "deriveDepositSecret P userKey poolAddress depositIndex =
     do { k \<leftarrow> parseUserKey userKey;
          ctx \<leftarrow> contextField P poolAddress depositIndex 0 (TAG_DEPOSIT_SECRET P);
          Some (prf2 P k ctx (DOM_DEPOSIT_SECRET P)) }"

definition deriveChangeNullifier :: "prims \<Rightarrow> user_key \<Rightarrow> string \<Rightarrow> int \<Rightarrow> int \<Rightarrow> int option" where
  "deriveChangeNullifier P userKey poolAddress depositIndex changeIndex =
     do { k \<leftarrow> parseUserKey userKey;
          ctx \<leftarrow> contextField P poolAddress depositIndex changeIndex (TAG_CHANGE_NULLIFIER P);
          Some (prf2 P k ctx (DOM_CHANGE_NULLIFIER P)) }"

definition deriveChangeSecret :: "prims \<Rightarrow> user_key \<Rightarrow> string \<Rightarrow> int \<Rightarrow> int \<Rightarrow> int option" where
  "deriveChangeSecret P userKey poolAddress depositIndex changeIndex =
     do { k \<leftarrow> parseUserKey userKey;
          ctx \<leftarrow> contextField P poolAddress depositIndex changeIndex (TAG_CHANGE_SECRET P);
          Some (prf2 P k ctx (DOM_CHANGE_SECRET P)) }"

definition deriveRefundNullifier :: "prims \<Rightarrow> user_key \<Rightarrow> string \<Rightarrow> int \<Rightarrow> int \<Rightarrow> int option" where
  "deriveRefundNullifier P userKey poolAddress depositIndex changeIndex =
     do { k \<leftarrow> parseUserKey userKey;
          ctx \<leftarrow> contextField P poolAddress depositIndex changeIndex (TAG_REFUND_NULLIFIER P);
          Some (prf2 P k ctx (DOM_REFUND_NULLIFIER P)) }"

definition deriveRefundSecret :: "prims \<Rightarrow> user_key \<Rightarrow> string \<Rightarrow> int \<Rightarrow> int \<Rightarrow> int option" where
  "deriveRefundSecret P userKey poolAddress depositIndex changeIndex =
     do { k \<leftarrow> parseUserKey userKey;
          ctx \<leftarrow> contextField P poolAddress depositIndex changeIndex (TAG_REFUND_SECRET P);
          Some (prf2 P k ctx (DOM_REFUND_SECRET P)) }"

section \<open>Notes and activities\<close>

text \<open>
  \<^verbatim>\<open>types/Note.ts\<close>. \<open>amount\<close> is declared a string, but the discovery code
  tests it against \<open>null\<close> and \<open>undefined\<close>: it is an optional string here.
  Indices are JavaScript numbers holding integers.
\<close>

datatype note_type = NoteDeposit | NoteChange | NoteRefund

datatype note_status = Unspent | Spent

record Note =
  poolAddress :: string
  depositIndex :: int
  changeIndex :: int
  refundIndex :: "int option"
  noteType :: note_type
  amount :: "string option"
  originTransactionHash :: string
  destinationTransactionHash :: string
  originChainId :: string
  destinationChainId :: string
  blockNumber :: string
  timestamp :: string
  status :: note_status
  isActivated :: bool
  label :: string
  refundCommitment :: "string option"

type_synonym NoteChain = "Note list"

text \<open>
  \<^verbatim>\<open>data/src/types/indexer.ts\<close>, interface \<open>Activity\<close>: the fields that the core
  reads. An optional or nullable field is an \<open>option\<close>.
\<close>

datatype ActivityType = DEPOSIT | WITHDRAWAL | CROSSCHAIN_DEPOSIT | CROSSCHAIN_WITHDRAWAL

record Activity =
  act_type :: ActivityType
  act_amount :: "int option"
  act_label :: "string option"
  act_precommitmentHash :: "string option"
  act_spentNullifier :: "string option"
  act_newCommitment :: "string option"
  act_refundCommitment :: "string option"
  act_blockNumber :: int
  act_timestamp :: int
  act_originTransactionHash :: string
  act_destinationTransactionHash :: "string option"
  act_originChainId :: int
  act_destinationChainId :: "int option"

text \<open>JavaScript truthiness and \<open>a || b\<close> on optional strings and bigints.\<close>

definition truthyStr :: "string option \<Rightarrow> bool" where
  "truthyStr v = (case v of None \<Rightarrow> False | Some s \<Rightarrow> s \<noteq> [])"

definition truthyBig :: "int option \<Rightarrow> bool" where
  "truthyBig v = (case v of None \<Rightarrow> False | Some n \<Rightarrow> n \<noteq> 0)"

definition orStr :: "string option \<Rightarrow> string \<Rightarrow> string" where
  "orStr v d = (case v of None \<Rightarrow> d | Some s \<Rightarrow> if s = [] then d else s)"

definition orBig :: "int option \<Rightarrow> int \<Rightarrow> int" where
  "orBig v d = (case v of None \<Rightarrow> d | Some n \<Rightarrow> if n = 0 then d else n)"

text \<open>\<open>BigInt(v)\<close> for an optional string: \<open>null\<close> and \<open>undefined\<close> throw a TypeError.\<close>

definition BigIntOf :: "string option \<Rightarrow> int option" where
  "BigIntOf v = (case v of None \<Rightarrow> None | Some s \<Rightarrow> js_BigInt s)"

subsection \<open>Commitments\<close>

text \<open>The nullifier and secret of a note: the deposit branch at change index 0.\<close>

definition noteNullifier :: "prims \<Rightarrow> int \<Rightarrow> Note \<Rightarrow> int option" where
  "noteNullifier P accountKey note =
     (if changeIndex note = 0
      then deriveDepositNullifier P (KeyBig accountKey) (poolAddress note) (depositIndex note)
      else deriveChangeNullifier P (KeyBig accountKey) (poolAddress note) (depositIndex note)
             (changeIndex note))"

definition noteSecret :: "prims \<Rightarrow> int \<Rightarrow> Note \<Rightarrow> int option" where
  "noteSecret P accountKey note =
     (if changeIndex note = 0
      then deriveDepositSecret P (KeyBig accountKey) (poolAddress note) (depositIndex note)
      else deriveChangeSecret P (KeyBig accountKey) (poolAddress note) (depositIndex note)
             (changeIndex note))"

definition derivedNoteCommitment :: "prims \<Rightarrow> int \<Rightarrow> Note \<Rightarrow> int option" where
  "derivedNoteCommitment P accountKey note =
     do { nullifier \<leftarrow> noteNullifier P accountKey note;
          secret \<leftarrow> noteSecret P accountKey note;
          let precommitment = poseidon2 P nullifier secret;
          a \<leftarrow> BigIntOf (amount note);
          l \<leftarrow> js_BigInt (label note);
          Some (poseidon3 P a l precommitment) }"

section \<open>Withdrawal context\<close>

record WithdrawalContext =
  contextHash :: int
  newNullifier :: int
  newSecret :: int
  existingNullifier :: int
  existingSecret :: int
  existingCommitment :: int


text \<open>
  \<open>encodeAbiParameters\<close> is viem's; it throws on a malformed address or byte string.
  It is a parameter of \<open>calculateContextHash\<close>.
\<close>

type_synonym abi_encoder = "string \<times> string \<Rightarrow> int \<Rightarrow> bytes option"

definition hashToBigInt :: "prims \<Rightarrow> bytes \<Rightarrow> int" where
  "hashToBigInt P data = js_rem (digestToBigInt (keccak256 P data)) SNARK_SCALAR_FIELD"

definition calculateContextHash :: "prims \<Rightarrow> abi_encoder \<Rightarrow> string \<times> string \<Rightarrow> int \<Rightarrow> int option" where
  "calculateContextHash P encodeAbiParameters withdrawalData poolScope =
     (case encodeAbiParameters withdrawalData poolScope of
        None \<Rightarrow> None
      | Some encoded \<Rightarrow> Some (hashToBigInt P encoded))"

definition calculateWithdrawalContext ::
  "prims \<Rightarrow> abi_encoder \<Rightarrow> Note \<Rightarrow> int \<Rightarrow> string \<times> string \<Rightarrow> int \<Rightarrow> WithdrawalContext option" where
  "calculateWithdrawalContext P enc note accountKey withdrawalData poolScope =
     do { ctx \<leftarrow> calculateContextHash P enc withdrawalData poolScope;
          commitment \<leftarrow> derivedNoteCommitment P accountKey note;
          newN \<leftarrow> deriveChangeNullifier P (KeyBig accountKey) (poolAddress note) (depositIndex note)
                    (changeIndex note + 1);
          newS \<leftarrow> deriveChangeSecret P (KeyBig accountKey) (poolAddress note) (depositIndex note)
                    (changeIndex note + 1);
          exN \<leftarrow> (if changeIndex note = 0
                   then deriveDepositNullifier P (KeyBig accountKey) (poolAddress note) (depositIndex note)
                   else deriveChangeNullifier P (KeyBig accountKey) (poolAddress note) (depositIndex note)
                          (changeIndex note));
          exS \<leftarrow> (if changeIndex note = 0
                   then deriveDepositSecret P (KeyBig accountKey) (poolAddress note) (depositIndex note)
                   else deriveChangeSecret P (KeyBig accountKey) (poolAddress note) (depositIndex note)
                          (changeIndex note));
          Some \<lparr> contextHash = ctx, newNullifier = newN, newSecret = newS,
                 existingNullifier = exN, existingSecret = exS, existingCommitment = commitment \<rparr> }"



section \<open>Note discovery\<close>

text \<open>
  \<^verbatim>\<open>NoteDiscoveryService\<close>. A function of this section returns \<open>None\<close> when the
  source does not return: it throws, or a loop does not end.
\<close>

definition isWithdrawalOf :: "string \<Rightarrow> Activity \<Rightarrow> bool" where
  "isWithdrawalOf nullifierHash activity =
     ((act_type activity = WITHDRAWAL \<or> act_type activity = CROSSCHAIN_WITHDRAWAL) \<and>
      act_spentNullifier activity = Some nullifierHash)"

definition changeNoteOf :: "NoteChain \<Rightarrow> int \<Rightarrow> int \<Rightarrow> Activity \<Rightarrow> Note" where
  "changeNoteOf chain chIndex remaining withdrawal =
     \<lparr> poolAddress = poolAddress (hd chain),
       depositIndex = depositIndex (hd chain),
       changeIndex = chIndex,
       refundIndex = None,
       noteType = NoteChange,
       amount = Some (toString remaining),
       originTransactionHash = act_originTransactionHash withdrawal,
       destinationTransactionHash =
         orStr (act_destinationTransactionHash withdrawal) (act_originTransactionHash withdrawal),
       originChainId = toString (act_originChainId withdrawal),
       destinationChainId =
         toString (orBig (act_destinationChainId withdrawal) (act_originChainId withdrawal)),
       blockNumber = toString (act_blockNumber withdrawal),
       timestamp = toString (act_timestamp withdrawal),
       status = (if remaining > 0 then Unspent else Spent),
       isActivated = True,
       label = label (hd chain),
       refundCommitment = act_refundCommitment withdrawal \<rparr>"

text \<open>
  The \<open>while (true)\<close> loop of \<open>extendChainInPlace\<close>. The chain is mutated in place in
  the source; here it is passed and returned, with the count of matched withdrawals.
\<close>

partial_function (option) extendLoop ::
  "prims \<Rightarrow> Activity list \<Rightarrow> int \<Rightarrow> string \<Rightarrow> NoteChain \<Rightarrow> int \<Rightarrow> int \<Rightarrow> int \<Rightarrow> nat
     \<Rightarrow> (NoteChain \<times> nat) option" where
  "extendLoop P pageActivities accountKey poolAddr chain remaining chIndex currentNullifier
       withdrawalsMatched =
     (let nullifierHash = toString (poseidon1 P currentNullifier) in
      case find (isWithdrawalOf nullifierHash) pageActivities of
        None \<Rightarrow> Some (chain, withdrawalsMatched)
      | Some withdrawal \<Rightarrow>
         (case act_amount withdrawal of
            None \<Rightarrow> Some (chain, withdrawalsMatched)
          | Some amt \<Rightarrow>
              if \<not> truthyStr (act_newCommitment withdrawal) \<or> amt = 0
              then Some (chain, withdrawalsMatched)
              else if chain = [] then None
              else
                let chain1 = chain[length chain - 1 := (last chain)\<lparr>status := Spent\<rparr>];
                    remaining1 = remaining - amt;
                    chain2 = chain1 @ [changeNoteOf chain1 chIndex remaining1 withdrawal]
                in if remaining1 \<le> 0 then Some (chain2, withdrawalsMatched + 1)
                   else
                     (case deriveChangeNullifier P (KeyBig accountKey) poolAddr
                             (depositIndex (hd chain2)) chIndex of
                        None \<Rightarrow> None
                      | Some nextNullifier \<Rightarrow>
                          extendLoop P pageActivities accountKey poolAddr chain2 remaining1
                            (chIndex + 1) nextNullifier (withdrawalsMatched + 1))))"

declare extendLoop.simps [code]

definition extendChainInPlace ::
  "prims \<Rightarrow> NoteChain \<Rightarrow> Activity list \<Rightarrow> int \<Rightarrow> string \<Rightarrow> (NoteChain \<times> nat) option" where
  "extendChainInPlace P chain pageActivities accountKey poolAddr =
     (if chain = [] then None
      else
        let lastNote = last chain in
        case amount lastNote of
          None \<Rightarrow> Some (chain, 0)
        | Some amt \<Rightarrow>
           (case js_BigInt amt of
              None \<Rightarrow> None
            | Some remaining \<Rightarrow>
               let chIndex = (if changeIndex lastNote = 0 then 1 else changeIndex lastNote + 1) in
               case (if changeIndex lastNote = 0
                     then deriveDepositNullifier P (KeyBig accountKey) poolAddr (depositIndex (hd chain))
                     else deriveChangeNullifier P (KeyBig accountKey) poolAddr (depositIndex (hd chain))
                            (changeIndex lastNote)) of
                 None \<Rightarrow> None
               | Some currentNullifier \<Rightarrow>
                   extendLoop P pageActivities accountKey poolAddr chain remaining chIndex
                     currentNullifier 0))"

definition depositNoteOf :: "Activity \<Rightarrow> int \<Rightarrow> string \<Rightarrow> Note" where
  "depositNoteOf depositActivity dIndex poolAddr =
     \<lparr> poolAddress = poolAddr,
       depositIndex = dIndex,
       changeIndex = 0,
       refundIndex = None,
       noteType = NoteDeposit,
       amount = Some (if truthyBig (act_amount depositActivity)
                      then toString (orBig (act_amount depositActivity) 0) else ''0''),
       originTransactionHash = act_originTransactionHash depositActivity,
       destinationTransactionHash =
         orStr (act_destinationTransactionHash depositActivity)
           (act_originTransactionHash depositActivity),
       originChainId = toString (act_originChainId depositActivity),
       destinationChainId =
         toString (orBig (act_destinationChainId depositActivity) (act_originChainId depositActivity)),
       blockNumber = toString (act_blockNumber depositActivity),
       timestamp = toString (act_timestamp depositActivity),
       status = Unspent,
       isActivated = (act_label depositActivity \<noteq> None),
       label = orStr (act_label depositActivity) (''Pending Deposit #'' @ toString dIndex),
       refundCommitment = None \<rparr>"

definition buildChainForDepositInPage ::
  "prims \<Rightarrow> Activity \<Rightarrow> int \<Rightarrow> Activity list \<Rightarrow> int \<Rightarrow> string \<Rightarrow> NoteChain option" where
  "buildChainForDepositInPage P depositActivity dIndex pageActivitiesAfter accountKey poolAddr =
     (let depositNote = depositNoteOf depositActivity dIndex poolAddr;
          chain = [depositNote]
      in map_option fst (extendChainInPlace P chain pageActivitiesAfter accountKey poolAddr))"

subsection \<open>The page loop\<close>

record LiveDeposit =
  ld_depositIndex :: int
  ld_chainIndex :: nat
  ld_remaining :: int

record DiscoveryProgress =
  pagesProcessed :: nat
  currentPageActivityCount :: nat
  depositsChecked :: nat
  depositsMatched :: nat
  lastCursor :: "string option"
  complete :: bool

record DiscoveryResult =
  res_notes :: "NoteChain list"
  lastUsedIndex :: int
  newNotesFound :: nat
  lastProcessedCursor :: "string option"

record Page =
  items :: "Activity list"
  hasNextPage :: bool
  endCursor :: "string option"

text \<open>
  The options of a run: \<open>aborted n\<close> is what \<open>signal.aborted\<close> reads at the \<open>n\<close>-th
  poll of the run (constantly \<open>False\<close> without a signal); \<open>maxPages\<close> is optional,
  and \<open>0\<close> is falsy: no cap. The progress observer is not supplied.
\<close>

record DiscoveryOptions =
  aborted :: "nat \<Rightarrow> bool"
  maxPages :: "nat option"

text \<open>The local variables of \<open>discoverNotes\<close>, and the checkpoints written so far.\<close>

record DiscoveryState =
  st_notes :: "NoteChain list"
  st_lastUsedIndex :: int
  st_nextDepositIndex :: int
  st_liveDeposits :: "LiveDeposit list"
  st_cursor :: "string option"
  st_pagesProcessed :: nat
  st_progress :: DiscoveryProgress
  st_polls :: nat
  st_stored :: "(NoteChain list \<times> string option) list"

text \<open>
  \<^verbatim>\<open>last.status === 'unspent' && last.amount && BigInt(last.amount) > 0n && last.isActivated\<close>:
  the remaining amount of a live tail, \<open>Some None\<close> for a tail that is not live, \<open>None\<close>
  when \<open>BigInt\<close> throws.
\<close>

definition liveAmount :: "Note \<Rightarrow> int option option" where
  "liveAmount lastNote =
     (if status lastNote = Unspent \<and> truthyStr (amount lastNote)
      then (case BigIntOf (amount lastNote) of
              None \<Rightarrow> None
            | Some v \<Rightarrow> Some (if v > 0 \<and> isActivated lastNote then Some v else None))
      else Some None)"

fun initLiveDeposits :: "NoteChain list \<Rightarrow> nat \<Rightarrow> LiveDeposit list option" where
  "initLiveDeposits [] idx = Some []"
| "initLiveDeposits (chain # rest) idx =
     (if chain = [] then None
      else case liveAmount (last chain) of
        None \<Rightarrow> None
      | Some r \<Rightarrow>
         (case initLiveDeposits rest (idx + 1) of
            None \<Rightarrow> None
          | Some lds \<Rightarrow>
              Some ((case r of
                       None \<Rightarrow> []
                     | Some v \<Rightarrow> [\<lparr> ld_depositIndex = depositIndex (hd chain), ld_chainIndex = idx,
                                    ld_remaining = v \<rparr>]) @ lds)))"

definition sameDeposit :: "LiveDeposit \<Rightarrow> LiveDeposit \<Rightarrow> bool" where
  "sameDeposit deposit liveDeposit =
     (ld_depositIndex deposit = ld_depositIndex liveDeposit \<and>
      ld_chainIndex deposit = ld_chainIndex liveDeposit)"

definition reconcileLive :: "LiveDeposit \<Rightarrow> Note \<Rightarrow> LiveDeposit list \<Rightarrow> LiveDeposit list option" where
  "reconcileLive liveDeposit lastNote liveDeposits =
     (if status lastNote = Spent \<or> \<not> truthyStr (amount lastNote)
      then Some (filter (\<lambda>deposit. \<not> sameDeposit deposit liveDeposit) liveDeposits)
      else case BigIntOf (amount lastNote) of
        None \<Rightarrow> None
      | Some v \<Rightarrow>
          if v \<le> 0
          then Some (filter (\<lambda>deposit. \<not> sameDeposit deposit liveDeposit) liveDeposits)
          else Some (map (\<lambda>deposit. if sameDeposit deposit liveDeposit
                                     then deposit\<lparr>ld_remaining := v\<rparr> else deposit) liveDeposits))"

text \<open>Step 1 of a page: the loop over a snapshot of \<open>liveDeposits\<close>.\<close>

fun extendLiveDeposits ::
  "prims \<Rightarrow> Activity list \<Rightarrow> int \<Rightarrow> string \<Rightarrow> LiveDeposit list \<Rightarrow> NoteChain list
     \<Rightarrow> LiveDeposit list \<Rightarrow> (NoteChain list \<times> LiveDeposit list) option" where
  "extendLiveDeposits P activities accountKey poolAddr [] ns liveDeposits = Some (ns, liveDeposits)"
| "extendLiveDeposits P activities accountKey poolAddr (liveDeposit # rest) ns liveDeposits =
     (if length ns \<le> ld_chainIndex liveDeposit
      then extendLiveDeposits P activities accountKey poolAddr rest ns liveDeposits
      else case extendChainInPlace P (ns ! ld_chainIndex liveDeposit) activities accountKey poolAddr of
        None \<Rightarrow> None
      | Some (chain, withdrawalsMatched) \<Rightarrow>
          let ns1 = ns[ld_chainIndex liveDeposit := chain] in
          if withdrawalsMatched > 0
          then (case reconcileLive liveDeposit (last chain) liveDeposits of
                  None \<Rightarrow> None
                | Some liveDeposits1 \<Rightarrow>
                    extendLiveDeposits P activities accountKey poolAddr rest ns1 liveDeposits1)
          else extendLiveDeposits P activities accountKey poolAddr rest ns1 liveDeposits)"

fun findIndex :: "('a \<Rightarrow> bool) \<Rightarrow> 'a list \<Rightarrow> nat option" where
  "findIndex p [] = None"
| "findIndex p (x # xs) = (if p x then Some 0 else map_option Suc (findIndex p xs))"

definition isDepositOf :: "string \<Rightarrow> Activity \<Rightarrow> bool" where
  "isDepositOf targetPrecommitment activity =
     ((act_type activity = DEPOSIT \<or> act_type activity = CROSSCHAIN_DEPOSIT) \<and>
      act_precommitmentHash activity = Some targetPrecommitment)"

text \<open>
  Step 2 of a page: the \<open>while (true)\<close> scan for new deposits. \<open>scanCandidate\<close> is
  one pass of the loop body after the abort check: it returns the new state and whether
  a deposit was matched (the loop goes on) or not (\<open>break\<close>).
\<close>

definition scanCandidate ::
  "prims \<Rightarrow> Activity list \<Rightarrow> int \<Rightarrow> string \<Rightarrow> DiscoveryState \<Rightarrow> (DiscoveryState \<times> bool) option" where
  "scanCandidate P activities accountKey poolAddr st =
     (let candidateDepositIndex = st_nextDepositIndex st in
      case deriveDepositNullifier P (KeyBig accountKey) poolAddr candidateDepositIndex of
        None \<Rightarrow> None
      | Some depositNullifier \<Rightarrow>
         (case deriveDepositSecret P (KeyBig accountKey) poolAddr candidateDepositIndex of
            None \<Rightarrow> None
          | Some depositSecret \<Rightarrow>
             let targetPrecommitment = toString (poseidon2 P depositNullifier depositSecret);
                 st1 = st\<lparr> st_polls := st_polls st + 1,
                           st_progress := (st_progress st)
                             \<lparr> depositsChecked := depositsChecked (st_progress st) + 1 \<rparr> \<rparr>
             in case findIndex (isDepositOf targetPrecommitment) activities of
                  None \<Rightarrow> Some (st1, False)
                | Some depositPosition \<Rightarrow>
                   (case buildChainForDepositInPage P (activities ! depositPosition)
                           candidateDepositIndex (drop (depositPosition + 1) activities)
                           accountKey poolAddr of
                      None \<Rightarrow> None
                    | Some newChain \<Rightarrow>
                       (case liveAmount (last newChain) of
                          None \<Rightarrow> None
                        | Some r \<Rightarrow>
                            Some (st1\<lparr> st_notes := st_notes st1 @ [newChain],
                                       st_liveDeposits := st_liveDeposits st1 @
                                         (case r of
                                            None \<Rightarrow> []
                                          | Some v \<Rightarrow>
                                              [\<lparr> ld_depositIndex = candidateDepositIndex,
                                                 ld_chainIndex = length (st_notes st1),
                                                 ld_remaining = v \<rparr>]),
                                       st_progress := (st_progress st1)
                                         \<lparr> depositsMatched := depositsMatched (st_progress st1) + 1 \<rparr>,
                                       st_lastUsedIndex :=
                                         max (st_lastUsedIndex st1) candidateDepositIndex,
                                       st_nextDepositIndex := candidateDepositIndex + 1 \<rparr>,
                                  True)))))"

partial_function (option) scanDeposits ::
  "prims \<Rightarrow> DiscoveryOptions \<Rightarrow> Activity list \<Rightarrow> int \<Rightarrow> string \<Rightarrow> DiscoveryState
     \<Rightarrow> DiscoveryState option" where
  "scanDeposits P opts activities accountKey poolAddr st =
     (if aborted opts (st_polls st) then None
      else case scanCandidate P activities accountKey poolAddr st of
        None \<Rightarrow> None
      | Some (st1, matched) \<Rightarrow>
          if matched then scanDeposits P opts activities accountKey poolAddr st1 else Some st1)"

declare scanDeposits.simps [code]

text \<open>
  The main loop. The fetcher is a function of the cursor (pool, page size and order are
  fixed in a run); \<open>None\<close> is a fetch that throws. \<open>processPage\<close> is the loop body
  from the fetched page to the checkpoint.
\<close>

definition morePages :: "DiscoveryOptions \<Rightarrow> DiscoveryState \<Rightarrow> bool" where
  "morePages opts st =
     (case maxPages opts of None \<Rightarrow> True | Some m \<Rightarrow> m = 0 \<or> st_pagesProcessed st < m)"

definition processPage ::
  "prims \<Rightarrow> DiscoveryOptions \<Rightarrow> int \<Rightarrow> string \<Rightarrow> DiscoveryState \<Rightarrow> Page \<Rightarrow> DiscoveryState option" where
  "processPage P opts accountKey poolAddr st activitiesResult =
     (let activities = items activitiesResult;
          st1 = st\<lparr> st_polls := st_polls st + 1,
                    st_cursor := endCursor activitiesResult,
                    st_pagesProcessed := st_pagesProcessed st + 1,
                    st_progress := (st_progress st)
                      \<lparr> pagesProcessed := st_pagesProcessed st + 1,
                        currentPageActivityCount := length activities,
                        lastCursor := endCursor activitiesResult \<rparr> \<rparr>
      in case (if st_liveDeposits st1 \<noteq> []
               then extendLiveDeposits P activities accountKey poolAddr (st_liveDeposits st1)
                      (st_notes st1) (st_liveDeposits st1)
               else Some (st_notes st1, st_liveDeposits st1)) of
           None \<Rightarrow> None
         | Some (ns, liveDeposits) \<Rightarrow>
            (case scanDeposits P opts activities accountKey poolAddr
                    (st1\<lparr> st_notes := ns, st_liveDeposits := liveDeposits \<rparr>) of
               None \<Rightarrow> None
             | Some st2 \<Rightarrow>
                 Some (st2\<lparr> st_stored := st_stored st2 @ [(st_notes st2, st_cursor st2)] \<rparr>)))"

partial_function (option) discoverLoop ::
  "prims \<Rightarrow> (string option \<Rightarrow> Page option) \<Rightarrow> DiscoveryOptions \<Rightarrow> int \<Rightarrow> string \<Rightarrow> DiscoveryState
     \<Rightarrow> DiscoveryState option" where
  "discoverLoop P fetchActivities opts accountKey poolAddr st =
     (if \<not> morePages opts st then Some st
      else if aborted opts (st_polls st) then None
      else case fetchActivities (st_cursor st) of
        None \<Rightarrow> None
      | Some activitiesResult \<Rightarrow>
         (case processPage P opts accountKey poolAddr st activitiesResult of
            None \<Rightarrow> None
          | Some st3 \<Rightarrow>
              if hasNextPage activitiesResult
              then discoverLoop P fetchActivities opts accountKey poolAddr st3
              else Some st3))"

declare discoverLoop.simps [code]

definition discoverNotes ::
  "prims \<Rightarrow> DiscoveryResult option \<Rightarrow> (string option \<Rightarrow> Page option) \<Rightarrow> DiscoveryOptions \<Rightarrow> string
     \<Rightarrow> int \<Rightarrow> DiscoveryResult option" where
  "discoverNotes P cached fetchActivities opts poolAddr accountKey =
     (let ns = (case cached of None \<Rightarrow> [] | Some c \<Rightarrow> res_notes c);
          lastUsed = (case cached of None \<Rightarrow> - 1 | Some c \<Rightarrow> lastUsedIndex c)
      in case initLiveDeposits ns 0 of
           None \<Rightarrow> None
         | Some liveDeposits \<Rightarrow>
            if aborted opts 0 then None
            else
              (case discoverLoop P fetchActivities opts accountKey poolAddr
                      \<lparr> st_notes = ns, st_lastUsedIndex = lastUsed, st_nextDepositIndex = lastUsed + 1,
                        st_liveDeposits = liveDeposits,
                        st_cursor = (case cached of
                                       None \<Rightarrow> None
                                     | Some c \<Rightarrow> if truthyStr (lastProcessedCursor c)
                                                 then lastProcessedCursor c else None),
                        st_pagesProcessed = 0,
                        st_progress = \<lparr> pagesProcessed = 0, currentPageActivityCount = 0,
                                        depositsChecked = 0, depositsMatched = 0,
                                        lastCursor = None, complete = False \<rparr>,
                        st_polls = 1, st_stored = [] \<rparr> of
                 None \<Rightarrow> None
               | Some st \<Rightarrow>
                   Some \<lparr> res_notes = st_notes st, lastUsedIndex = st_lastUsedIndex st,
                          newNotesFound = depositsMatched (st_progress st),
                          lastProcessedCursor = st_cursor st \<rparr>))"

section \<open>Withdrawal proof generation\<close>

subsection \<open>The Lean incremental Merkle tree\<close>

text \<open>
  The tree of \<open>@zk-kit/lean-imt\<close> that \<open>buildMerkleTrees\<close> fills: \<open>_nodes\<close> is the
  list of levels, leaves first; \<open>depth\<close> is the number of levels minus one; a node
  without a right sibling is copied up. \<open>Math.ceil(Math.log2(n))\<close> is computed on
  naturals.
\<close>

type_synonym LeanIMT = "int list list"

definition imtEmpty :: LeanIMT where
  "imtEmpty = [[]]"

definition imtDepth :: "LeanIMT \<Rightarrow> nat" where
  "imtDepth t = length t - 1"

definition imtSize :: "LeanIMT \<Rightarrow> nat" where
  "imtSize t = (case t of [] \<Rightarrow> 0 | leaves # _ \<Rightarrow> length leaves)"

definition imtRoot :: "LeanIMT \<Rightarrow> int option" where
  "imtRoot t = (if t = [] then None else case last t of [] \<Rightarrow> None | r # _ \<Rightarrow> Some r)"

function ceilLog2 :: "nat \<Rightarrow> nat" where
  "ceilLog2 n = (if n \<le> 1 then 0 else Suc (ceilLog2 ((n + 1) div 2)))"
  by pat_completeness auto
termination
  by (relation "measure (\<lambda>n. n)") auto

declare ceilLog2.simps [simp del]

definition setAt :: "'a list \<Rightarrow> nat \<Rightarrow> 'a \<Rightarrow> 'a list" where
  "setAt xs i v = (if i < length xs then xs[i := v] else xs @ [v])"

fun insertLoop :: "(int \<Rightarrow> int \<Rightarrow> int) \<Rightarrow> int list list \<Rightarrow> int \<Rightarrow> nat \<Rightarrow> int list list" where
  "insertLoop h [] node index = []"
| "insertLoop h [rootLevel] node index = [[node]]"
| "insertLoop h (lvl # rest) node index =
     (let lvl1 = setAt lvl index node;
          node1 = (if odd index then h (lvl1 ! (index - 1)) node else node)
      in lvl1 # insertLoop h rest node1 (index div 2))"

definition imtInsert :: "(int \<Rightarrow> int \<Rightarrow> int) \<Rightarrow> LeanIMT \<Rightarrow> int \<Rightarrow> LeanIMT" where
  "imtInsert h t leaf =
     (let t1 = (if imtDepth t < ceilLog2 (imtSize t + 1) then t @ [[]] else t)
      in insertLoop h t1 leaf (imtSize t))"

text \<open>
  A proof: \<open>index\<close> is \<open>Number.parseInt\<close> of the path bits, \<open>NaN\<close> (here \<open>None\<close>) when
  the path is empty. A level where the node has no sibling adds nothing to the proof.
\<close>

record MerkleProof =
  pf_root :: "int option"
  pf_leaf :: int
  pf_index :: "int option"
  pf_siblings :: "int list"

fun proofLoop :: "int list list \<Rightarrow> nat \<Rightarrow> bool list \<times> int list" where
  "proofLoop [] index = ([], [])"
| "proofLoop [rootLevel] index = ([], [])"
| "proofLoop (lvl # rest) index =
     (let isRightNode = odd index;
          siblingIndex = (if isRightNode then index - 1 else index + 1);
          (path, siblings) = proofLoop rest (index div 2)
      in if siblingIndex < length lvl
         then (isRightNode # path, (lvl ! siblingIndex) # siblings)
         else (path, siblings))"

definition pathIndex :: "bool list \<Rightarrow> int option" where
  "pathIndex path =
     (if path = [] then None
      else Some (foldr (\<lambda>b acc. (if b then 1 else 0) + 2 * acc) path 0))"

definition generateProof :: "LeanIMT \<Rightarrow> int \<Rightarrow> MerkleProof option" where
  "generateProof t index =
     (if index < 0 \<or> int (imtSize t) \<le> index then None
      else
        let (path, siblings) = proofLoop t (nat index)
        in Some \<lparr> pf_root = imtRoot t, pf_leaf = hd t ! nat index,
                  pf_index = pathIndex path, pf_siblings = siblings \<rparr>)"

subsection \<open>Circuit inputs\<close>

definition MAX_TREE_DEPTH :: nat where
  "MAX_TREE_DEPTH = 32"

definition padArray :: "int list \<Rightarrow> nat \<Rightarrow> int list" where
  "padArray arr len =
     (if len \<le> length arr then arr else arr @ replicate (len - length arr) 0)"

text \<open>\<open>Array.prototype.indexOf\<close>: the first position of the value, or \<open>-1\<close>.\<close>

definition indexOf :: "int list \<Rightarrow> int \<Rightarrow> int" where
  "indexOf xs x = (case findIndex (\<lambda>y. y = x) xs of None \<Rightarrow> - 1 | Some i \<Rightarrow> int i)"

text \<open>
  The record handed to the prover is an object whose fields are strings, arrays of
  strings, or numbers: an association list in the order the source writes the fields.
\<close>

datatype signal = SigString string | SigStrings "string list" | SigNumber int

type_synonym circuit_inputs = "(string \<times> signal) list"

record WithdrawalProofArgs =
  arg_existingCommitmentHash :: int
  arg_existingValue :: int
  arg_existingNullifier :: int
  arg_existingSecret :: int
  arg_withdrawalValue :: int
  arg_context :: int
  arg_label :: int
  arg_newNullifier :: int
  arg_newSecret :: int
  arg_stateTreeCommitments :: "int list"
  arg_aspTreeLabels :: "int list"

record CrosschainWithdrawalProofArgs = WithdrawalProofArgs +
  arg_refundNullifier :: int
  arg_refundSecret :: int

record CircuitInputParams =
  in_withdrawalValue :: int
  in_existingValue :: int
  in_existingNullifier :: int
  in_existingSecret :: int
  in_context :: int
  in_label :: int
  in_newNullifier :: int
  in_newSecret :: int
  in_stateProof :: MerkleProof
  in_aspProof :: MerkleProof
  in_stateTreeDepth :: nat
  in_ASPTreeDepth :: nat
  in_stateIndex :: int
  in_aspIndex :: int


text \<open>
  \<open>stateProof.root.toString()\<close> throws a TypeError on the \<open>undefined\<close> root of an
  empty tree: \<open>None\<close>.
\<close>

definition prepareCircuitInputs :: "'a CircuitInputParams_scheme \<Rightarrow> circuit_inputs option" where
  "prepareCircuitInputs params =
     (case pf_root (in_stateProof params) of
        None \<Rightarrow> None
      | Some stateRoot \<Rightarrow>
         (case pf_root (in_aspProof params) of
            None \<Rightarrow> None
          | Some aspRoot \<Rightarrow>
              Some [(''withdrawnValue'', SigString (toString (in_withdrawalValue params))),
                    (''stateRoot'', SigString (toString stateRoot)),
                    (''ASPRoot'', SigString (toString aspRoot)),
                    (''stateTreeDepth'', SigString (toString (int (in_stateTreeDepth params)))),
                    (''ASPTreeDepth'', SigString (toString (int (in_ASPTreeDepth params)))),
                    (''context'', SigString (toString (in_context params))),
                    (''label'', SigString (toString (in_label params))),
                    (''existingValue'', SigString (toString (in_existingValue params))),
                    (''existingNullifier'', SigString (toString (in_existingNullifier params))),
                    (''existingSecret'', SigString (toString (in_existingSecret params))),
                    (''newNullifier'', SigString (toString (in_newNullifier params))),
                    (''newSecret'', SigString (toString (in_newSecret params))),
                    (''stateSiblings'',
                       SigStrings (map toString
                         (padArray (pf_siblings (in_stateProof params)) MAX_TREE_DEPTH))),
                    (''ASPSiblings'',
                       SigStrings (map toString
                         (padArray (pf_siblings (in_aspProof params)) MAX_TREE_DEPTH))),
                    (''stateIndex'', SigNumber (in_stateIndex params)),
                    (''ASPIndex'', SigNumber (in_aspIndex params))]))"


subsection \<open>The generator\<close>

text \<open>
  \<^verbatim>\<open>WithdrawalProofGenerator\<close>. The circuit file loaders and snarkjs are the
  environment: a loader is absent (\<open>None\<close>), throws (\<open>Some None\<close>) or returns the
  files; \<open>fullProve\<close> and \<open>verify\<close> return \<open>None\<close> when they throw. A call returns
  its result or error, the external calls it made in order, and the generator with its
  cached files.
\<close>

datatype gen_error =
    CircuitLoaderNotProvided
  | CircuitLoaderFailed
  | CommitmentNotFound
  | LabelNotFound
  | MerkleProofFailed
  | CircuitInputsFailed
  | ProverFailed
  | VerificationFailed

datatype event = LoadCircuitFiles | FullProve circuit_inputs | Verify "string list"

record ('cf, 'pf) ProverEnv =
  circuitFileLoader :: "'cf option option"
  crosschainCircuitFileLoader :: "'cf option option"
  fullProve :: "circuit_inputs \<Rightarrow> 'cf \<Rightarrow> ('pf \<times> string list) option"
  verify :: "'cf \<Rightarrow> string list \<Rightarrow> 'pf \<Rightarrow> bool option"

record 'cf Generator =
  circuitFiles :: "'cf option"
  crosschainCircuitFiles :: "'cf option"

definition ensureCircuitFiles ::
  "('cf, 'pf) ProverEnv \<Rightarrow> 'cf Generator \<Rightarrow> (gen_error + 'cf) \<times> event list \<times> 'cf Generator" where
  "ensureCircuitFiles env gen =
     (case circuitFiles gen of
        Some cf \<Rightarrow> (Inr cf, [], gen)
      | None \<Rightarrow>
         (case circuitFileLoader env of
            None \<Rightarrow> (Inl CircuitLoaderNotProvided, [], gen)
          | Some None \<Rightarrow> (Inl CircuitLoaderFailed, [LoadCircuitFiles], gen)
          | Some (Some cf) \<Rightarrow> (Inr cf, [LoadCircuitFiles], gen\<lparr>circuitFiles := Some cf\<rparr>)))"

definition ensureCrossChainWithdrawalCircuitFiles ::
  "('cf, 'pf) ProverEnv \<Rightarrow> 'cf Generator \<Rightarrow> (gen_error + 'cf) \<times> event list \<times> 'cf Generator" where
  "ensureCrossChainWithdrawalCircuitFiles env gen =
     (case crosschainCircuitFiles gen of
        Some cf \<Rightarrow> (Inr cf, [], gen)
      | None \<Rightarrow>
         (case crosschainCircuitFileLoader env of
            None \<Rightarrow> (Inl CircuitLoaderNotProvided, [], gen)
          | Some None \<Rightarrow> (Inl CircuitLoaderFailed, [LoadCircuitFiles], gen)
          | Some (Some cf) \<Rightarrow>
              (Inr cf, [LoadCircuitFiles], gen\<lparr>crosschainCircuitFiles := Some cf\<rparr>)))"

text \<open>The verifiers catch every exception and answer \<open>false\<close>.\<close>

definition verifyWithdrawalProof ::
  "('cf, 'pf) ProverEnv \<Rightarrow> 'cf Generator \<Rightarrow> 'pf \<times> string list \<Rightarrow> bool \<times> event list \<times> 'cf Generator" where
  "verifyWithdrawalProof env gen proofData =
     (case ensureCircuitFiles env gen of
        (Inl e, evs, gen1) \<Rightarrow> (False, evs, gen1)
      | (Inr cf, evs, gen1) \<Rightarrow>
         (case verify env cf (snd proofData) (fst proofData) of
            None \<Rightarrow> (False, evs @ [Verify (snd proofData)], gen1)
          | Some isValid \<Rightarrow> (isValid, evs @ [Verify (snd proofData)], gen1)))"


definition buildMerkleTrees :: "prims \<Rightarrow> int list \<Rightarrow> int list \<Rightarrow> LeanIMT \<times> LeanIMT" where
  "buildMerkleTrees P stateTreeCommitments aspTreeLabels =
     (foldl (imtInsert (poseidon2 P)) imtEmpty stateTreeCommitments,
      foldl (imtInsert (poseidon2 P)) imtEmpty aspTreeLabels)"

text \<open>\<^verbatim>\<open>Object.is(proof.index, Number.NaN) ? 0 : proof.index\<close>\<close>

definition nanToZero :: "int option \<Rightarrow> int" where
  "nanToZero i = (case i of None \<Rightarrow> 0 | Some n \<Rightarrow> n)"

definition generateWithdrawalProof ::
  "prims \<Rightarrow> ('cf, 'pf) ProverEnv \<Rightarrow> 'cf Generator \<Rightarrow> WithdrawalProofArgs
     \<Rightarrow> (gen_error + 'pf \<times> string list) \<times> event list \<times> 'cf Generator" where
  "generateWithdrawalProof P env gen args =
     (case ensureCircuitFiles env gen of
        (Inl e, evs, gen1) \<Rightarrow> (Inl e, evs, gen1)
      | (Inr cf, evs, gen1) \<Rightarrow>
         (case buildMerkleTrees P (arg_stateTreeCommitments args) (arg_aspTreeLabels args) of
            (stateTree, aspTree) \<Rightarrow>
              let stateIndex = indexOf (arg_stateTreeCommitments args) (arg_existingCommitmentHash args);
                  aspIndex = indexOf (arg_aspTreeLabels args) (arg_label args)
              in if stateIndex = - 1 then (Inl CommitmentNotFound, evs, gen1)
                 else if aspIndex = - 1 then (Inl LabelNotFound, evs, gen1)
                 else
                   (case generateProof stateTree stateIndex of
                      None \<Rightarrow> (Inl MerkleProofFailed, evs, gen1)
                    | Some stateProof \<Rightarrow>
                       (case generateProof aspTree aspIndex of
                          None \<Rightarrow> (Inl MerkleProofFailed, evs, gen1)
                        | Some aspProof \<Rightarrow>
                           (case prepareCircuitInputs
                                   \<lparr> in_withdrawalValue = arg_withdrawalValue args,
                                     in_existingValue = arg_existingValue args,
                                     in_existingNullifier = arg_existingNullifier args,
                                     in_existingSecret = arg_existingSecret args,
                                     in_context = arg_context args,
                                     in_label = arg_label args,
                                     in_newNullifier = arg_newNullifier args,
                                     in_newSecret = arg_newSecret args,
                                     in_stateProof = stateProof,
                                     in_aspProof = aspProof,
                                     in_stateTreeDepth = imtDepth stateTree,
                                     in_ASPTreeDepth = imtDepth aspTree,
                                     in_stateIndex = nanToZero (pf_index stateProof),
                                     in_aspIndex = nanToZero (pf_index aspProof) \<rparr> of
                              None \<Rightarrow> (Inl CircuitInputsFailed, evs, gen1)
                            | Some circuitInputs \<Rightarrow>
                               (case fullProve env circuitInputs cf of
                                  None \<Rightarrow> (Inl ProverFailed, evs @ [FullProve circuitInputs], gen1)
                                | Some proofData \<Rightarrow>
                                   (case verifyWithdrawalProof env gen1 proofData of
                                      (isValid, evs2, gen2) \<Rightarrow>
                                        if \<not> isValid
                                        then (Inl VerificationFailed,
                                              evs @ [FullProve circuitInputs] @ evs2, gen2)
                                        else (Inr proofData,
                                              evs @ [FullProve circuitInputs] @ evs2, gen2))))))))"


section \<open>Notions used by the properties\<close>

text \<open>
  The hex string of an integer, as \<^verbatim>\<open>DepositService\<close> writes a precommitment:
  \<^verbatim>\<open>`0x${x.toString(16)}`\<close>.
\<close>

definition hexString :: "int \<Rightarrow> string" where
  "hexString x = ''0x'' @ toStringRadix 16 x"

text \<open>A non-empty string of decimal digits.\<close>

definition dec_chars :: "string \<Rightarrow> bool" where
  "dec_chars t = (t \<noteq> [] \<and> (\<forall>c\<in>set t. \<exists>d\<in>{0..9}. c = digit_char d))"

text \<open>
  The derivation as the specification words it: \<open>mod_p\<close> is the non-negative
  reduction, \<open>field_from_keccak(bytes) = mod_p(uint256(keccak256(bytes)))\<close>, a tag is
  \<open>keccak256(utf8("shinobi.cash:X"))\<close>, the context packs the checksummed address,
  the two indices as \<open>uint64\<close> and the tag, and
  \<open>prf(k, ctx, dom) = mod_p(poseidon2(k, mod_p(poseidon2(ctx, dom))))\<close>.
\<close>

definition mod_p :: "int \<Rightarrow> int" where
  "mod_p x = x mod F"

definition field_from_keccak :: "prims \<Rightarrow> bytes \<Rightarrow> int" where
  "field_from_keccak P b = mod_p (uint (keccak256 P b))"

definition spec_tag :: "prims \<Rightarrow> string \<Rightarrow> 256 word" where
  "spec_tag P X = keccak256 P (stringBytes (''shinobi.cash:'' @ X))"

definition spec_ctx :: "prims \<Rightarrow> string \<Rightarrow> int \<Rightarrow> int \<Rightarrow> string \<Rightarrow> int option" where
  "spec_ctx P pool di ci X =
     (case getAddress P pool of
        None \<Rightarrow> None
      | Some a \<Rightarrow>
          map_option (field_from_keccak P)
            (encodePacked P [PAddress a, PUint64 di, PUint64 ci, PBytes32 (spec_tag P X)]))"

definition spec_prf :: "prims \<Rightarrow> int \<Rightarrow> int \<Rightarrow> int \<Rightarrow> int" where
  "spec_prf P k ctx d = mod_p (poseidon2 P k (mod_p (poseidon2 P ctx d)))"

definition spec_derive :: "prims \<Rightarrow> int \<Rightarrow> string \<Rightarrow> int \<Rightarrow> int \<Rightarrow> string \<Rightarrow> int option" where
  "spec_derive P k pool di ci X =
     map_option (\<lambda>ctx. spec_prf P k ctx (field_from_keccak P (digestBytes (spec_tag P X))))
       (spec_ctx P pool di ci X)"

text \<open>
  Small stand-ins for the library functions, to run the definitions on concrete
  inputs, and a pool address.
\<close>

definition examplePrims :: prims where
  "examplePrims =
     \<lparr> keccak256 = (\<lambda>b. word_of_int (foldl (\<lambda>a x. (a * 257 + uint x) mod 65521) 1 b)),
       poseidon1 = (\<lambda>a. (a * a + 1) mod 999983),
       poseidon2 = (\<lambda>a b. (a * a + 3 * b + 2) mod 999983),
       poseidon3 = (\<lambda>a b c. (a + 5 * b * b + 7 * c + 3) mod 999983),
       getAddress = (\<lambda>s. if length s = 42 then Some s else None),
       addressBytes = (\<lambda>s. if length s = 42 then Some (stringBytes (drop 2 s)) else None) \<rparr>"

definition examplePool :: string where
  "examplePool = ''0x5543000000000000000000000000000000007D18''"


text \<open>
  A pool address that \<open>getAddress\<close> accepts and the packed encoding can encode, and an
  index in the range of \<open>uint64\<close>.
\<close>

definition validPool :: "prims \<Rightarrow> string \<Rightarrow> bool" where
  "validPool P pool =
     (case getAddress P pool of None \<Rightarrow> False | Some a \<Rightarrow> addressBytes P a \<noteq> None)"

definition inUint64 :: "int \<Rightarrow> bool" where
  "inUint64 v = (0 \<le> v \<and> v < 2 ^ 64)"

text \<open>A note and a withdrawal intent to run the definitions on.\<close>

definition exampleNote :: Note where
  "exampleNote =
     \<lparr> poolAddress = examplePool, depositIndex = 0, changeIndex = 1, refundIndex = None,
       noteType = NoteChange, amount = Some ''600000'', originTransactionHash = ''0xaa'',
       destinationTransactionHash = ''0xaa'', originChainId = ''1'', destinationChainId = ''1'',
       blockNumber = ''10'', timestamp = ''1000'', status = Unspent, isActivated = True,
       label = ''77'', refundCommitment = None \<rparr>"

definition exampleEncoder :: abi_encoder where
  "exampleEncoder = (\<lambda>wd scope. Some (stringBytes (fst wd @ snd wd @ toString scope)))"

text \<open>
  The change indices of a chain are \<open>0, 1, 2, \<dots>\<close> in order, the head at \<open>0\<close>.
\<close>

definition contiguous :: "NoteChain \<Rightarrow> bool" where
  "contiguous chain = (chain \<noteq> [] \<and> map changeIndex chain = map int [0..<length chain])"

definition allContiguous :: "NoteChain list \<Rightarrow> bool" where
  "allContiguous ns = list_all contiguous ns"

text \<open>The chains in memory and in every checkpoint written so far are contiguous.\<close>

definition stateOk :: "DiscoveryState \<Rightarrow> bool" where
  "stateOk st =
     (allContiguous (st_notes st) \<and> list_all (\<lambda>cp. allContiguous (fst cp)) (st_stored st))"

text \<open>
  An activity stream for the example key \<open>5\<close> and pool: a deposit of 1000000 at deposit
  index 0 and two withdrawals, of 400000 and of 600000, over two pages.
\<close>

definition exampleActivity :: Activity where
  "exampleActivity =
     \<lparr> act_type = DEPOSIT, act_amount = None, act_label = None, act_precommitmentHash = None,
       act_spentNullifier = None, act_newCommitment = None, act_refundCommitment = None,
       act_blockNumber = 10, act_timestamp = 1000, act_originTransactionHash = ''0xaa'',
       act_destinationTransactionHash = None, act_originChainId = 1,
       act_destinationChainId = None \<rparr>"

definition exampleDeposit :: Activity where
  "exampleDeposit =
     exampleActivity\<lparr> act_amount := Some 1000000, act_label := Some ''77'',
                       act_precommitmentHash := Some ''509256'' \<rparr>"

definition exampleWithdrawal1 :: Activity where
  "exampleWithdrawal1 =
     exampleActivity\<lparr> act_type := WITHDRAWAL, act_amount := Some 400000,
                       act_spentNullifier := Some ''648749'', act_newCommitment := Some ''111'',
                       act_blockNumber := 11, act_originTransactionHash := ''0xbb'' \<rparr>"

definition exampleWithdrawal2 :: Activity where
  "exampleWithdrawal2 =
     exampleActivity\<lparr> act_type := CROSSCHAIN_WITHDRAWAL, act_amount := Some 600000,
                       act_spentNullifier := Some ''821364'', act_newCommitment := Some ''222'',
                       act_refundCommitment := Some ''333'',
                       act_blockNumber := 12, act_originTransactionHash := ''0xcc'' \<rparr>"

definition exampleFetch :: "string option \<Rightarrow> Page option" where
  "exampleFetch cursor =
     (if cursor = None
      then Some \<lparr> items = [exampleDeposit, exampleWithdrawal1], hasNextPage = True,
                  endCursor = Some ''c1'' \<rparr>
      else if cursor = Some ''c1''
      then Some \<lparr> items = [exampleWithdrawal2], hasNextPage = False, endCursor = Some ''c2'' \<rparr>
      else None)"

definition exampleOptions :: DiscoveryOptions where
  "exampleOptions = \<lparr> aborted = (\<lambda>n. False), maxPages = None \<rparr>"

text \<open>A cached state is absent, or holds contiguous chains.\<close>

definition cachedOk :: "DiscoveryResult option \<Rightarrow> bool" where
  "cachedOk cached = (case cached of None \<Rightarrow> True | Some c \<Rightarrow> allContiguous (res_notes c))"

text \<open>
  The nullifier of the tail note of a chain, as \<open>extendChainInPlace\<close> derives it: the
  deposit nullifier when the tail's change index is 0, the change nullifier at the
  tail's change index otherwise, both at the deposit index of the chain head.
\<close>

definition tailNullifier :: "prims \<Rightarrow> int \<Rightarrow> string \<Rightarrow> NoteChain \<Rightarrow> int option" where
  "tailNullifier P accountKey poolAddr chain =
     (if changeIndex (last chain) = 0
      then deriveDepositNullifier P (KeyBig accountKey) poolAddr (depositIndex (hd chain))
      else deriveChangeNullifier P (KeyBig accountKey) poolAddr (depositIndex (hd chain))
             (changeIndex (last chain)))"

definition nullifierHash :: "prims \<Rightarrow> int \<Rightarrow> string" where
  "nullifierHash P nullifier = toString (poseidon1 P nullifier)"

text \<open>
  The deposit note of the example stream, a withdrawal that spends it but carries no new
  commitment, the second withdrawal of the stream without its new commitment, and a
  pending deposit (amount and label null) followed on its page by a withdrawal of 5 that
  spends its nullifier.
\<close>

definition exampleDepositNote :: Note where
  "exampleDepositNote = depositNoteOf exampleDeposit 0 examplePool"

definition exampleWithdrawalBare :: Activity where
  "exampleWithdrawalBare = exampleWithdrawal1\<lparr> act_newCommitment := None \<rparr>"

definition exampleWithdrawal2Bare :: Activity where
  "exampleWithdrawal2Bare = exampleWithdrawal2\<lparr> act_newCommitment := None \<rparr>"

definition examplePending :: Activity where
  "examplePending =
     exampleActivity\<lparr> act_type := CROSSCHAIN_DEPOSIT, act_precommitmentHash := Some ''509256'' \<rparr>"

definition exampleSpendPending :: Activity where
  "exampleSpendPending =
     exampleActivity\<lparr> act_type := WITHDRAWAL, act_amount := Some 5,
                       act_spentNullifier := Some ''648749'', act_newCommitment := Some ''111'' \<rparr>"

definition pendingFetch :: "string option \<Rightarrow> Page option" where
  "pendingFetch cursor =
     (if cursor = None
      then Some \<lparr> items = [examplePending, exampleSpendPending], hasNextPage = False,
                  endCursor = Some ''c1'' \<rparr>
      else None)"

text \<open>
  A field of an input record, by name; the inputs handed to the prover in a run, in
  order; a field that is a decimal string or an array of decimal strings; and the
  records all of whose fields are such, with or without the two index fields.
\<close>

definition fieldOf :: "string \<Rightarrow> circuit_inputs \<Rightarrow> signal option" where
  "fieldOf name ci = map_of ci name"

definition provedInputs :: "event list \<Rightarrow> circuit_inputs list" where
  "provedInputs evs = concat (map (\<lambda>e. case e of FullProve ci \<Rightarrow> [ci] | _ \<Rightarrow> []) evs)"

definition decimalSignal :: "signal \<Rightarrow> bool" where
  "decimalSignal v =
     (case v of
        SigString s \<Rightarrow> dec_chars s
      | SigStrings ss \<Rightarrow> list_all dec_chars ss
      | SigNumber n \<Rightarrow> False)"

definition allDecimalStrings :: "circuit_inputs \<Rightarrow> bool" where
  "allDecimalStrings ci = list_all (\<lambda>f. decimalSignal (snd f)) ci"

definition decimalExceptIndices :: "circuit_inputs \<Rightarrow> bool" where
  "decimalExceptIndices ci =
     list_all (\<lambda>f. decimalSignal (snd f))
       (filter (\<lambda>f. fst f \<noteq> ''stateIndex'' \<and> fst f \<noteq> ''ASPIndex'') ci)"

definition nonNegativeArgs :: "'a WithdrawalProofArgs_scheme \<Rightarrow> bool" where
  "nonNegativeArgs args =
     (0 \<le> arg_existingValue args \<and> 0 \<le> arg_existingNullifier args \<and>
      0 \<le> arg_existingSecret args \<and> 0 \<le> arg_withdrawalValue args \<and>
      0 \<le> arg_context args \<and> 0 \<le> arg_label args \<and>
      0 \<le> arg_newNullifier args \<and> 0 \<le> arg_newSecret args \<and>
      list_all (\<lambda>x. 0 \<le> x) (arg_stateTreeCommitments args) \<and>
      list_all (\<lambda>x. 0 \<le> x) (arg_aspTreeLabels args))"

text \<open>
  A prover environment whose loaders and prover succeed, a fresh generator, and
  arguments: ten state leaves with the commitment at index 7 and four labels with the
  label at index 2; the same with the label missing; and with both missing.
\<close>

definition exampleEnv :: "(nat, nat) ProverEnv" where
  "exampleEnv =
     \<lparr> circuitFileLoader = Some (Some 1), crosschainCircuitFileLoader = Some (Some 2),
       fullProve = (\<lambda>ci cf. Some (7, [''1''])), verify = (\<lambda>cf ps pf. Some True) \<rparr>"

definition exampleGen :: "nat Generator" where
  "exampleGen = \<lparr> circuitFiles = None, crosschainCircuitFiles = None \<rparr>"

definition exampleArgs :: WithdrawalProofArgs where
  "exampleArgs =
     \<lparr> arg_existingCommitmentHash = 108, arg_existingValue = 1000,
       arg_existingNullifier = 11, arg_existingSecret = 12, arg_withdrawalValue = 400,
       arg_context = 13, arg_label = 203, arg_newNullifier = 14, arg_newSecret = 15,
       arg_stateTreeCommitments = [101, 102, 103, 104, 105, 106, 107, 108, 109, 110],
       arg_aspTreeLabels = [201, 202, 203, 204] \<rparr>"

definition exampleArgsNoLabel :: WithdrawalProofArgs where
  "exampleArgsNoLabel = exampleArgs\<lparr> arg_aspTreeLabels := [201, 202, 204] \<rparr>"

definition exampleArgsNeither :: WithdrawalProofArgs where
  "exampleArgsNeither =
     exampleArgs\<lparr> arg_stateTreeCommitments := [101, 102], arg_aspTreeLabels := [201, 202, 204] \<rparr>"

definition exampleCrossArgs :: CrosschainWithdrawalProofArgs where
  "exampleCrossArgs =
     \<lparr> arg_existingCommitmentHash = 108, arg_existingValue = 1000,
       arg_existingNullifier = 11, arg_existingSecret = 12, arg_withdrawalValue = 400,
       arg_context = 13, arg_label = 203, arg_newNullifier = 14, arg_newSecret = 15,
       arg_stateTreeCommitments = [101, 102],
       arg_aspTreeLabels = [201, 202, 203, 204],
       arg_refundNullifier = 16, arg_refundSecret = 17 \<rparr>"

section \<open>Verified properties\<close>

subsection \<open>Field reduction, digits and \<open>BigInt\<close>\<close>

lemma js_rem_nonneg: "0 \<le> a \<Longrightarrow> 0 < b \<Longrightarrow> js_rem a b = a mod b"
  by (simp add: js_rem_def sgn_if)

lemma modF_eq_mod: "modF x = x mod F"
proof -
  have Fpos: "0 < F" by (simp add: F_def)
  show ?thesis
  proof (cases "0 \<le> x")
    case True
    then have "js_rem x F = x mod F" using Fpos by (simp add: js_rem_nonneg)
    moreover have "0 \<le> x mod F + F" using Fpos
      by (simp add: add_nonneg_nonneg)
    ultimately show ?thesis using Fpos by (simp add: modF_def js_rem_nonneg)
  next
    case False
    then have neg: "x < 0" by simp
    then have r: "js_rem x F = - ((- x) mod F)" using Fpos by (simp add: js_rem_def sgn_if)
    have b: "(- x) mod F < F" "0 \<le> (- x) mod F" using Fpos by simp_all
    then have "0 \<le> - ((- x) mod F) + F" by linarith
    then have "modF x = (- ((- x) mod F) + F) mod F"
      using Fpos r by (simp add: modF_def js_rem_nonneg)
    also have "\<dots> = (- ((- x) mod F)) mod F" by simp
    also have "\<dots> = x mod F" by (simp add: mod_minus_eq)
    finally show ?thesis .
  qed
qed

lemma of_char_digit_char:
  "0 \<le> d \<Longrightarrow> d < 16 \<Longrightarrow> (of_char (digit_char d) :: int) = (if d < 10 then 48 + d else 87 + d)"
  by (simp add: digit_char_def)

lemma digit_val_digit_char: "0 \<le> d \<Longrightarrow> d < 16 \<Longrightarrow> digit_val (digit_char d) = Some d"
  by (simp add: digit_val_def of_char_digit_char Let_def)

lemma digits_val_append:
  "digits_val b acc (xs @ ys) = (case digits_val b acc xs of None \<Rightarrow> None | Some a \<Rightarrow> digits_val b a ys)"
  by (induction xs arbitrary: acc) (auto split: option.splits)

lemma radix_digits_small: "n < b \<Longrightarrow> radix_digits b n = [digit_char n]"
  by (subst radix_digits.simps) simp

lemma radix_digits_step:
  "2 \<le> b \<Longrightarrow> b \<le> n \<Longrightarrow> radix_digits b n = radix_digits b (n div b) @ [digit_char (n mod b)]"
  by (subst radix_digits.simps) simp

lemma radix_digits_nonempty: "radix_digits b n \<noteq> []"
  by (subst radix_digits.simps) simp

lemma digits_val_radix_digits:
  "2 \<le> b \<Longrightarrow> b \<le> 16 \<Longrightarrow> 0 \<le> n \<Longrightarrow> digits_val b 0 (radix_digits b n) = Some n"
proof (induction b n rule: radix_digits.induct)
  case (1 b n)
  show ?case
  proof (cases "n < b")
    case True
    then show ?thesis using "1.prems"
      by (simp add: radix_digits_small digit_val_digit_char)
  next
    case False
    then have ge: "b \<le> n" by simp
    have nn: "0 \<le> n div b" using "1.prems" by (simp add: pos_imp_zdiv_nonneg_iff)
    have ih: "digits_val b 0 (radix_digits b (n div b)) = Some (n div b)"
      using "1.IH" False "1.prems" nn by simp
    have m: "0 \<le> n mod b" "n mod b < b" using "1.prems" by simp_all
    then have m16: "n mod b < 16" using "1.prems"(2) by linarith
    have "n div b * b + n mod b = n" by simp
    then show ?thesis
      using m m16 ih "1.prems"(1) ge
      by (simp add: radix_digits_step digits_val_append digit_val_digit_char)
  qed
qed

lemma radix_digits_chars:
  "2 \<le> b \<Longrightarrow> b \<le> 16 \<Longrightarrow> 0 \<le> n \<Longrightarrow> c \<in> set (radix_digits b n)
     \<Longrightarrow> \<exists>d. 0 \<le> d \<and> d < b \<and> c = digit_char d"
proof (induction b n rule: radix_digits.induct)
  case (1 b n)
  show ?case
  proof (cases "n < b")
    case True
    then have "c = digit_char n" using "1.prems"(4) by (simp add: radix_digits_small)
    then show ?thesis using True "1.prems"(3) by blast
  next
    case False
    then have ge: "b \<le> n" by simp
    have nn: "0 \<le> n div b" using "1.prems" by (simp add: pos_imp_zdiv_nonneg_iff)
    from "1.prems"(4) consider "c \<in> set (radix_digits b (n div b))" | "c = digit_char (n mod b)"
      using "1.prems"(1) ge by (auto simp: radix_digits_step)
    then show ?thesis
    proof cases
      case 1
      then show ?thesis using "1.IH" False "1.prems"(1,2) nn by simp
    next
      case 2
      moreover have "0 \<le> n mod b" "n mod b < b" using "1.prems"(1) by simp_all
      ultimately show ?thesis by blast
    qed
  qed
qed

lemma digit_char_not_ws: "0 \<le> d \<Longrightarrow> d < 16 \<Longrightarrow> \<not> is_ws (digit_char d)"
  by (auto simp: is_ws_def of_char_digit_char)

lemma radix_digits_no_ws:
  assumes "2 \<le> b" "b \<le> 16" "0 \<le> n" "c \<in> set (radix_digits b n)"
  shows "\<not> is_ws c"
proof -
  obtain d where "0 \<le> d" "d < b" "c = digit_char d" using radix_digits_chars[OF assms] by blast
  then show ?thesis using assms(2) digit_char_not_ws[of d] by simp
qed

lemma js_trim_ends: "s \<noteq> [] \<Longrightarrow> \<not> is_ws (hd s) \<Longrightarrow> \<not> is_ws (last s) \<Longrightarrow> js_trim s = s"
proof -
  assume a: "s \<noteq> []" "\<not> is_ws (hd s)" "\<not> is_ws (last s)"
  have 1: "dropWhile is_ws s = s" using a by (simp add: dropWhile_eq_self_iff)
  have "hd (rev s) = last s" using a by (simp add: hd_rev)
  then have 2: "dropWhile is_ws (rev s) = rev s" using a(3) by (simp add: dropWhile_eq_self_iff)
  show ?thesis by (simp add: js_trim_def 1 2)
qed

lemma js_trim_no_ws: "\<forall>c\<in>set s. \<not> is_ws c \<Longrightarrow> js_trim s = s"
proof (cases "s = []")
  case True
  then show ?thesis by (simp add: js_trim_def)
next
  case False
  assume a: "\<forall>c\<in>set s. \<not> is_ws c"
  have "hd s \<in> set s" "last s \<in> set s" using False by simp_all
  then show ?thesis using a False js_trim_ends by blast
qed

lemma digit_char_props:
  assumes "0 \<le> d" "d < 10"
  shows "digit_char d \<noteq> CHR ''x'' \<and> digit_char d \<noteq> CHR ''X'' \<and> digit_char d \<noteq> CHR ''o''
     \<and> digit_char d \<noteq> CHR ''O'' \<and> digit_char d \<noteq> CHR ''b'' \<and> digit_char d \<noteq> CHR ''B''
     \<and> digit_char d \<noteq> CHR ''-'' \<and> digit_char d \<noteq> CHR ''+''"
proof -
  have "(of_char (digit_char d) :: int) = 48 + d" using assms by (simp add: of_char_digit_char)
  then have r: "(of_char (digit_char d) :: int) < 58" "48 \<le> (of_char (digit_char d) :: int)"
    using assms by simp_all
  have "\<And>c. of_char (digit_char d) \<noteq> (of_char c :: int) \<Longrightarrow> digit_char d \<noteq> c" by auto
  then show ?thesis using r by auto
qed

lemma dec_chars_radix_digits: "0 \<le> n \<Longrightarrow> dec_chars (radix_digits 10 n)"
  unfolding dec_chars_def using radix_digits_nonempty radix_digits_chars[of 10 n] by fastforce

lemma dec_chars_no_ws: "dec_chars t \<Longrightarrow> c \<in> set t \<Longrightarrow> \<not> is_ws c"
  unfolding dec_chars_def using digit_char_not_ws by fastforce

lemma take2_second_in_set: "take 2 t = [a, b] \<Longrightarrow> b \<in> set t"
  by (metis in_set_takeD list.set_intros(1) list.set_intros(2))

lemma dec_chars_digit: "dec_chars t \<Longrightarrow> c \<in> set t \<Longrightarrow> \<exists>d. 0 \<le> d \<and> d < 10 \<and> c = digit_char d"
  unfolding dec_chars_def by fastforce

lemma dec_chars_no_prefix:
  assumes "dec_chars t"
  shows "take 2 t \<noteq> [a, CHR ''x'']" "take 2 t \<noteq> [a, CHR ''X'']" "take 2 t \<noteq> [a, CHR ''o'']"
    "take 2 t \<noteq> [a, CHR ''O'']" "take 2 t \<noteq> [a, CHR ''b'']" "take 2 t \<noteq> [a, CHR ''B'']"
  using dec_chars_digit[OF assms] take2_second_in_set[of t a] digit_char_props by metis+

lemma dec_chars_hd: "dec_chars t \<Longrightarrow> hd t \<noteq> CHR ''-'' \<and> hd t \<noteq> CHR ''+''"
proof -
  assume a: "dec_chars t"
  then have "hd t \<in> set t" by (simp add: dec_chars_def)
  then show ?thesis using dec_chars_digit[OF a] digit_char_props by metis
qed

lemma js_BigInt_decimal:
  assumes "dec_chars t"
  shows "js_BigInt t = parse_digits 10 t"
proof -
  have tr: "js_trim t = t" using assms dec_chars_no_ws by (intro js_trim_no_ws) blast
  have ne: "t \<noteq> []" using assms by (simp add: dec_chars_def)
  show ?thesis
    using ne dec_chars_no_prefix[OF assms] dec_chars_hd[OF assms]
    by (simp add: js_BigInt_def tr)
qed

lemma js_BigInt_negative:
  assumes "dec_chars t"
  shows "js_BigInt (CHR ''-'' # t) = map_option (\<lambda>n. - n) (parse_digits 10 t)"
proof -
  have ne: "t \<noteq> []" using assms by (simp add: dec_chars_def)
  have "\<not> is_ws (CHR ''-'')" by (simp add: is_ws_def)
  moreover have "\<not> is_ws (last (CHR ''-'' # t))" using ne assms dec_chars_no_ws[of t "last t"] by simp
  ultimately have tr: "js_trim (CHR ''-'' # t) = CHR ''-'' # t" by (intro js_trim_ends) simp_all
  show ?thesis by (simp add: js_BigInt_def tr)
qed

lemma parse_digits_radix_digits:
  "2 \<le> b \<Longrightarrow> b \<le> 16 \<Longrightarrow> 0 \<le> n \<Longrightarrow> parse_digits b (radix_digits b n) = Some n"
  by (simp add: parse_digits_def radix_digits_nonempty digits_val_radix_digits)

lemma js_BigInt_toString: "js_BigInt (toString x) = Some x"
proof (cases "x < 0")
  case True
  then have "0 \<le> - x" by simp
  then show ?thesis using True
    by (simp add: toString_def toStringRadix_def js_BigInt_negative[OF dec_chars_radix_digits]
        parse_digits_radix_digits)
next
  case False
  then have "0 \<le> x" by simp
  then show ?thesis using False
    by (simp add: toString_def toStringRadix_def js_BigInt_decimal[OF dec_chars_radix_digits]
        parse_digits_radix_digits)
qed

lemma toString_inj: "toString x = toString y \<longleftrightarrow> x = y"
  by (metis js_BigInt_toString option.inject)

lemma js_BigInt_hex:
  "0 \<le> n \<Longrightarrow> js_BigInt (''0x'' @ radix_digits 16 n) = Some n"
proof -
  assume n: "0 \<le> n"
  let ?t = "''0x'' @ radix_digits 16 n"
  have l: "last ?t \<in> set (radix_digits 16 n)" using radix_digits_nonempty[of 16 n] by simp
  have "\<not> is_ws (last ?t)" using radix_digits_no_ws[OF _ _ n l] by simp
  moreover have "\<not> is_ws (hd ?t)" by (simp add: is_ws_def)
  ultimately have tr: "js_trim ?t = ?t" by (intro js_trim_ends) simp_all
  show ?thesis
    unfolding js_BigInt_def tr Let_def using n by (simp add: parse_digits_radix_digits)
qed

lemma js_trim_pad:
  assumes l: "\<forall>c\<in>set l. is_ws c" and r: "\<forall>c\<in>set r. is_ws c"
  shows "js_trim (l @ s @ r) = js_trim s"
proof -
  have 1: "dropWhile is_ws (l @ s @ r) = dropWhile is_ws (s @ r)" using l by simp
  show ?thesis
  proof (cases "\<forall>c\<in>set s. is_ws c")
    case True
    have a: "dropWhile is_ws (s @ r) = []" using True r by simp
    have b: "dropWhile is_ws s = []" using True by simp
    show ?thesis unfolding js_trim_def 1 a b by simp
  next
    case False
    then have 2: "dropWhile is_ws (s @ r) = dropWhile is_ws s @ r"
      by (metis dropWhile_append1)
    have "\<forall>c\<in>set (rev r). is_ws c" using r by simp
    then have "dropWhile is_ws (rev r @ rev (dropWhile is_ws s)) = dropWhile is_ws (rev (dropWhile is_ws s))"
      by (metis dropWhile_append2)
    then show ?thesis by (simp add: js_trim_def 1 2)
  qed
qed

lemma startsWith_toString: "\<not> startsWith (toString x) ''0x''"
proof (cases "x < 0")
  case True
  then show ?thesis by (simp add: startsWith_def toString_def toStringRadix_def)
next
  case False
  then have "0 \<le> x" by simp
  from dec_chars_no_prefix(1)[OF dec_chars_radix_digits[OF this], of "CHR ''0''"] False
  show ?thesis
    by (simp add: startsWith_def toString_def toStringRadix_def numeral_2_eq_2)
qed

lemma js_trim_toString: "js_trim (toString x) = toString x"
proof (cases "x < 0")
  case True
  then have nn: "0 \<le> - x" by simp
  have ne: "radix_digits 10 (- x) \<noteq> []" by (rule radix_digits_nonempty)
  have "\<not> is_ws (CHR ''-'')" by (simp add: is_ws_def)
  moreover have "\<not> is_ws (last (CHR ''-'' # radix_digits 10 (- x)))"
    using ne dec_chars_no_ws[OF dec_chars_radix_digits[OF nn], of "last (radix_digits 10 (- x))"]
    by simp
  ultimately have "js_trim (CHR ''-'' # radix_digits 10 (- x)) = CHR ''-'' # radix_digits 10 (- x)"
    by (intro js_trim_ends) simp_all
  then show ?thesis using True by (simp add: toString_def toStringRadix_def)
next
  case False
  then have nn: "0 \<le> x" by simp
  have "js_trim (radix_digits 10 x) = radix_digits 10 x"
    using dec_chars_no_ws[OF dec_chars_radix_digits[OF nn]] by (intro js_trim_no_ws) blast
  then show ?thesis using False by (simp add: toString_def toStringRadix_def)
qed

lemma parseUserKey_decimal: "parseUserKey (KeyStr (toString x)) = Some (x mod F)"
  by (simp add: js_trim_toString startsWith_toString js_BigInt_toString modF_eq_mod)

lemma js_trim_hexString: "0 \<le> x \<Longrightarrow> js_trim (hexString x) = hexString x"
proof -
  assume x: "0 \<le> x"
  let ?t = "''0x'' @ radix_digits 16 x"
  have l: "last ?t \<in> set (radix_digits 16 x)" using radix_digits_nonempty[of 16 x] by simp
  have "\<not> is_ws (last ?t)" using radix_digits_no_ws[OF _ _ x l] by simp
  moreover have "\<not> is_ws (hd ?t)" by (simp add: is_ws_def)
  ultimately have "js_trim ?t = ?t" by (intro js_trim_ends) simp_all
  then show ?thesis using x by (simp add: hexString_def toStringRadix_def)
qed

lemma parseUserKey_hex: "0 \<le> x \<Longrightarrow> parseUserKey (KeyStr (hexString x)) = Some (x mod F)"
proof -
  assume a: "0 \<le> x"
  have h: "hexString x = ''0x'' @ radix_digits 16 x" using a by (simp add: hexString_def toStringRadix_def)
  have "js_BigInt (hexString x) = Some x" using js_BigInt_hex[OF a] by (simp add: h)
  moreover have "startsWith (hexString x) ''0x''" by (simp add: startsWith_def hexString_def)
  ultimately show ?thesis
    by (simp add: js_trim_hexString[OF a] hexToBigInt_def modF_eq_mod)
qed

lemma parseUserKey_trim:
  "\<forall>c\<in>set l \<union> set r. is_ws c \<Longrightarrow> parseUserKey (KeyStr (l @ s @ r)) = parseUserKey (KeyStr s)"
  using js_trim_pad[of l r s] by simp

subsection \<open>Key parsing\<close>

text \<open>
  Claim C9, amended. For every integer \<open>x\<close>, \<open>parseUserKey\<close> applied to \<open>x\<close> as a
  bigint and to the decimal string of \<open>x\<close> returns \<open>x\<close> reduced into \<open>[0, p)\<close>; for
  every non-negative \<open>x\<close> the hex string of \<open>x\<close> with its \<open>0x\<close> prefix returns the
  same value; white space around a string input is trimmed before parsing. (A negative
  integer has no hex string that \<open>BigInt\<close> accepts: the counterexample below.)
\<close>

theorem parseUserKey_canonical:
  "parseUserKey (KeyBig x) = Some (x mod F) \<and>
   parseUserKey (KeyStr (toString x)) = Some (x mod F) \<and>
   (0 \<le> x \<longrightarrow> parseUserKey (KeyStr (hexString x)) = Some (x mod F)) \<and>
   0 \<le> x mod F \<and> x mod F < F \<and>
   ((\<forall>c\<in>set l \<union> set r. is_ws c) \<longrightarrow> parseUserKey (KeyStr (l @ s @ r)) = parseUserKey (KeyStr s))"
proof -
  have "0 < F" by (simp add: F_def)
  then show ?thesis
    using parseUserKey_decimal parseUserKey_hex parseUserKey_trim
    by (simp add: modF_eq_mod)
qed

theorem parseUserKey_canonical_witness:
  "parseUserKey (KeyBig 11) = Some 11 \<and>
   parseUserKey (KeyStr ''11'') = Some 11 \<and>
   parseUserKey (KeyStr ''0xb'') = Some 11 \<and>
   parseUserKey (KeyStr '' 0xb  '') = parseUserKey (KeyStr ''0xb'')"
proof -
  have F11: "11 mod F = 11" by (simp add: F_def)
  have d: "toString 11 = ''11''" by code_simp
  have h: "hexString 11 = ''0xb''" by code_simp
  have ws: "\<forall>c\<in>set '' '' \<union> set ''  ''. is_ws c" by (simp add: is_ws_def)
  show ?thesis
    using parseUserKey_canonical[of 11 "'' ''" "''  ''" "''0xb''"] ws by (simp add: F11 d h)
qed

theorem parseUserKey_hex_negative_counterexample:
  "parseUserKey (KeyStr (hexString (- 1))) = None \<and> parseUserKey (KeyBig (- 1)) = Some (F - 1)"
proof -
  have h: "hexString (- 1) = ''0x-1''" by code_simp
  have tr: "js_trim ''0x-1'' = ''0x-1''" by (intro js_trim_ends) (simp_all add: is_ws_def)
  have "js_BigInt ''0x-1'' = None"
    by (simp add: js_BigInt_def tr parse_digits_def digit_val_def)
  moreover have "(- 1) mod F = F - 1" by (simp add: F_def)
  ultimately show ?thesis
    by (simp add: h tr startsWith_def hexToBigInt_def modF_eq_mod)
qed

subsection \<open>Derivation\<close>

lemma fieldFromKeccak_spec: "fieldFromKeccak P b = field_from_keccak P b"
  by (simp add: fieldFromKeccak_def field_from_keccak_def mod_p_def modF_eq_mod digestToBigInt_def)

lemma prf2_spec: "prf2 P k ctx d = spec_prf P k ctx d"
  by (simp add: prf2_def spec_prf_def mod_p_def modF_eq_mod)

lemma contextField_spec: "contextField P pool di ci (spec_tag P X) = spec_ctx P pool di ci X"
  by (simp add: contextField_def spec_ctx_def fieldFromKeccak_spec split: option.splits)

lemma parseUserKey_field: "0 \<le> k \<Longrightarrow> k < F \<Longrightarrow> parseUserKey (KeyBig k) = Some k"
  by (simp add: modF_eq_mod)

lemma tags_spec:
  "TAG_DEPOSIT_NULLIFIER P = spec_tag P ''DepositNullifierV1''"
  "TAG_DEPOSIT_SECRET P = spec_tag P ''DepositSecretV1''"
  "TAG_CHANGE_NULLIFIER P = spec_tag P ''ChangeNullifierV1''"
  "TAG_CHANGE_SECRET P = spec_tag P ''ChangeSecretV1''"
  "TAG_REFUND_NULLIFIER P = spec_tag P ''RefundNullifierV1''"
  "TAG_REFUND_SECRET P = spec_tag P ''RefundSecretV1''"
  by (simp_all add: TAG_DEPOSIT_NULLIFIER_def TAG_DEPOSIT_SECRET_def TAG_CHANGE_NULLIFIER_def
      TAG_CHANGE_SECRET_def TAG_REFUND_NULLIFIER_def TAG_REFUND_SECRET_def tagOf_def spec_tag_def)

lemma encodePacked_string: "encodePacked P [PString s] = Some (stringBytes s)"
  by simp

lemma derive_general:
  "deriveDepositNullifier P (KeyBig k) pool di = spec_derive P (k mod F) pool di 0 ''DepositNullifierV1''"
  "deriveDepositSecret P (KeyBig k) pool di = spec_derive P (k mod F) pool di 0 ''DepositSecretV1''"
  "deriveChangeNullifier P (KeyBig k) pool di ci = spec_derive P (k mod F) pool di ci ''ChangeNullifierV1''"
  "deriveChangeSecret P (KeyBig k) pool di ci = spec_derive P (k mod F) pool di ci ''ChangeSecretV1''"
  "deriveRefundNullifier P (KeyBig k) pool di ci = spec_derive P (k mod F) pool di ci ''RefundNullifierV1''"
  "deriveRefundSecret P (KeyBig k) pool di ci = spec_derive P (k mod F) pool di ci ''RefundSecretV1''"
  by (simp_all add: deriveDepositNullifier_def deriveDepositSecret_def deriveChangeNullifier_def
      deriveChangeSecret_def deriveRefundNullifier_def deriveRefundSecret_def
      DOM_DEPOSIT_NULLIFIER_def DOM_DEPOSIT_SECRET_def DOM_CHANGE_NULLIFIER_def
      DOM_CHANGE_SECRET_def DOM_REFUND_NULLIFIER_def DOM_REFUND_SECRET_def
      tags_spec contextField_spec fieldFromKeccak_spec prf2_spec spec_derive_def modF_eq_mod
      map_option_case split: option.splits)

text \<open>
  Claim C1. For an account key \<open>k\<close> (a field element), a pool address and a deposit
  index, \<open>deriveDepositNullifier\<close> is \<open>mod_p(poseidon2(k, mod_p(poseidon2(ctx, dom))))\<close>
  with \<open>ctx\<close> the field reduction of the keccak digest of the packed encoding of the
  checksummed address, the index as \<open>uint64\<close>, \<open>0\<close> as \<open>uint64\<close> and the tag
  \<open>keccak256("shinobi.cash:DepositNullifierV1")\<close>, and \<open>dom\<close> the field reduction
  \<open>field_from_keccak\<close> of that tag; the other five derivations satisfy the same equation
  with their own tag and the given change index. Both sides fail together when the
  address or an index cannot be packed.
\<close>

theorem derive_is_prf:
  assumes "0 \<le> k" and "k < F"
  shows "deriveDepositNullifier P (KeyBig k) pool di = spec_derive P k pool di 0 ''DepositNullifierV1'' \<and>
         deriveDepositSecret P (KeyBig k) pool di = spec_derive P k pool di 0 ''DepositSecretV1'' \<and>
         deriveChangeNullifier P (KeyBig k) pool di ci = spec_derive P k pool di ci ''ChangeNullifierV1'' \<and>
         deriveChangeSecret P (KeyBig k) pool di ci = spec_derive P k pool di ci ''ChangeSecretV1'' \<and>
         deriveRefundNullifier P (KeyBig k) pool di ci = spec_derive P k pool di ci ''RefundNullifierV1'' \<and>
         deriveRefundSecret P (KeyBig k) pool di ci = spec_derive P k pool di ci ''RefundSecretV1''"
proof -
  have "k mod F = k" using assms by simp
  then show ?thesis by (simp add: derive_general)
qed

lemma example_deposit_nullifier:
  "deriveDepositNullifier examplePrims (KeyBig 5) examplePool 0 =
     Some 531778"
  by code_simp

theorem derive_is_prf_witness:
  "spec_derive examplePrims 5 examplePool 0 0 ''DepositNullifierV1'' =
     Some 531778"
proof -
  have "(0::int) \<le> 5" "(5::int) < F" by (simp_all add: F_def)
  from derive_is_prf[OF this, of examplePrims examplePool 0 0]
  show ?thesis by (simp add: example_deposit_nullifier)
qed

subsection \<open>Commitments and withdrawal contexts\<close>

lemma contextField_Some:
  assumes "validPool P pool" "inUint64 di" "inUint64 ci"
  shows "\<exists>c. contextField P pool di ci tag = Some c"
  using assms
  by (auto simp: validPool_def inUint64_def contextField_def split: option.splits)

lemma derive_Some:
  assumes "validPool P pool" "inUint64 di"
  shows "\<exists>n. deriveDepositNullifier P (KeyBig k) pool di = Some n"
    and "\<exists>n. deriveDepositSecret P (KeyBig k) pool di = Some n"
    and "inUint64 ci \<Longrightarrow> \<exists>n. deriveChangeNullifier P (KeyBig k) pool di ci = Some n"
    and "inUint64 ci \<Longrightarrow> \<exists>n. deriveChangeSecret P (KeyBig k) pool di ci = Some n"
    and "inUint64 ci \<Longrightarrow> \<exists>n. deriveRefundNullifier P (KeyBig k) pool di ci = Some n"
    and "inUint64 ci \<Longrightarrow> \<exists>n. deriveRefundSecret P (KeyBig k) pool di ci = Some n"
proof -
  have z: "inUint64 0" by (simp add: inUint64_def)
  show "\<exists>n. deriveDepositNullifier P (KeyBig k) pool di = Some n"
    using contextField_Some[OF assms z, of "TAG_DEPOSIT_NULLIFIER P"]
    by (auto simp: deriveDepositNullifier_def)
  show "\<exists>n. deriveDepositSecret P (KeyBig k) pool di = Some n"
    using contextField_Some[OF assms z, of "TAG_DEPOSIT_SECRET P"]
    by (auto simp: deriveDepositSecret_def)
  show "inUint64 ci \<Longrightarrow> \<exists>n. deriveChangeNullifier P (KeyBig k) pool di ci = Some n"
    using contextField_Some[OF assms, of ci "TAG_CHANGE_NULLIFIER P"]
    by (auto simp: deriveChangeNullifier_def)
  show "inUint64 ci \<Longrightarrow> \<exists>n. deriveChangeSecret P (KeyBig k) pool di ci = Some n"
    using contextField_Some[OF assms, of ci "TAG_CHANGE_SECRET P"]
    by (auto simp: deriveChangeSecret_def)
  show "inUint64 ci \<Longrightarrow> \<exists>n. deriveRefundNullifier P (KeyBig k) pool di ci = Some n"
    using contextField_Some[OF assms, of ci "TAG_REFUND_NULLIFIER P"]
    by (auto simp: deriveRefundNullifier_def)
  show "inUint64 ci \<Longrightarrow> \<exists>n. deriveRefundSecret P (KeyBig k) pool di ci = Some n"
    using contextField_Some[OF assms, of ci "TAG_REFUND_SECRET P"]
    by (auto simp: deriveRefundSecret_def)
qed

lemma noteNullifier_Some:
  assumes "validPool P (poolAddress note)" "inUint64 (depositIndex note)" "inUint64 (changeIndex note)"
  shows "\<exists>n. noteNullifier P k note = Some n" and "\<exists>s. noteSecret P k note = Some s"
  using derive_Some(1,2)[OF assms(1,2)] derive_Some(3,4)[OF assms(1,2) assms(3)]
  by (simp_all add: noteNullifier_def noteSecret_def)

lemma derivedNoteCommitment_eq:
  assumes "noteNullifier P k note = Some n" "noteSecret P k note = Some s"
    "BigIntOf (amount note) = Some a" "js_BigInt (label note) = Some l"
  shows "derivedNoteCommitment P k note = Some (poseidon3 P a l (poseidon2 P n s))"
  using assms by (simp add: derivedNoteCommitment_def)

lemma calculateWithdrawalContext_eq:
  assumes "noteNullifier P k note = Some n" "noteSecret P k note = Some s"
    "derivedNoteCommitment P k note = Some cm"
    "enc wd scope = Some e"
    "deriveChangeNullifier P (KeyBig k) (poolAddress note) (depositIndex note) (changeIndex note + 1) = Some nn"
    "deriveChangeSecret P (KeyBig k) (poolAddress note) (depositIndex note) (changeIndex note + 1) = Some ns"
  shows "calculateWithdrawalContext P enc note k wd scope =
           Some \<lparr> contextHash = hashToBigInt P e, newNullifier = nn, newSecret = ns,
                  existingNullifier = n, existingSecret = s, existingCommitment = cm \<rparr>"
  using assms
  by (simp add: calculateWithdrawalContext_def calculateContextHash_def noteNullifier_def
      noteSecret_def)

text \<open>
  Claim C2. For every account key and every note whose amount and label are present
  (they parse as integers \<open>a\<close> and \<open>l\<close>), at a pool address and indices that can be
  packed: with \<open>(n, s)\<close> the deposit derivations at the note's pool and deposit index
  when its change index is 0, and the change derivations at its change index
  otherwise, \<open>derivedNoteCommitment\<close> returns \<open>poseidon3(a, l, poseidon2(n, s))\<close>, and
  \<open>calculateWithdrawalContext\<close> returns a context whose \<open>existingCommitment\<close> is this
  value and whose \<open>existingNullifier\<close> and \<open>existingSecret\<close> are \<open>n\<close> and \<open>s\<close>.
\<close>

theorem commitment_composition:
  assumes amt: "BigIntOf (amount note) = Some a" and lbl: "js_BigInt (label note) = Some l"
    and pool: "validPool P (poolAddress note)"
    and idx: "inUint64 (depositIndex note)" "inUint64 (changeIndex note)"
      "inUint64 (changeIndex note + 1)"
    and enc: "enc wd scope = Some e"
  shows "\<exists>n s c.
    (if changeIndex note = 0
     then deriveDepositNullifier P (KeyBig k) (poolAddress note) (depositIndex note)
     else deriveChangeNullifier P (KeyBig k) (poolAddress note) (depositIndex note)
            (changeIndex note)) = Some n \<and>
    (if changeIndex note = 0
     then deriveDepositSecret P (KeyBig k) (poolAddress note) (depositIndex note)
     else deriveChangeSecret P (KeyBig k) (poolAddress note) (depositIndex note)
            (changeIndex note)) = Some s \<and>
    derivedNoteCommitment P k note = Some (poseidon3 P a l (poseidon2 P n s)) \<and>
    calculateWithdrawalContext P enc note k wd scope = Some c \<and>
    existingCommitment c = poseidon3 P a l (poseidon2 P n s) \<and>
    existingNullifier c = n \<and> existingSecret c = s"
proof -
  obtain n where n: "noteNullifier P k note = Some n"
    using noteNullifier_Some(1)[OF pool idx(1,2)] by blast
  obtain s where s: "noteSecret P k note = Some s"
    using noteNullifier_Some(2)[OF pool idx(1,2)] by blast
  obtain nn where nn: "deriveChangeNullifier P (KeyBig k) (poolAddress note) (depositIndex note)
      (changeIndex note + 1) = Some nn"
    using derive_Some(3)[OF pool idx(1,3)] by blast
  obtain ns where ns: "deriveChangeSecret P (KeyBig k) (poolAddress note) (depositIndex note)
      (changeIndex note + 1) = Some ns"
    using derive_Some(4)[OF pool idx(1,3)] by blast
  have cm: "derivedNoteCommitment P k note = Some (poseidon3 P a l (poseidon2 P n s))"
    by (rule derivedNoteCommitment_eq[OF n s amt lbl])
  have c: "calculateWithdrawalContext P enc note k wd scope =
      Some \<lparr> contextHash = hashToBigInt P e, newNullifier = nn, newSecret = ns,
             existingNullifier = n, existingSecret = s,
             existingCommitment = poseidon3 P a l (poseidon2 P n s) \<rparr>"
    by (rule calculateWithdrawalContext_eq[where enc=enc and wd=wd and scope=scope, OF n s cm enc nn ns])
  show ?thesis
    apply (rule exI[of _ n])
    apply (rule exI[of _ s])
    apply (rule exI[of _ "\<lparr> contextHash = hashToBigInt P e, newNullifier = nn, newSecret = ns,
             existingNullifier = n, existingSecret = s,
             existingCommitment = poseidon3 P a l (poseidon2 P n s) \<rparr>"])
    using n s cm c by (simp add: noteNullifier_def noteSecret_def)
qed

lemma exampleNote_sel:
  "poolAddress exampleNote = examplePool" "depositIndex exampleNote = 0"
  "changeIndex exampleNote = 1"
  by (simp_all add: exampleNote_def)

lemma example_valid: "validPool examplePrims examplePool"
  by code_simp

lemma example_amount: "BigIntOf (amount exampleNote) = Some 600000"
  by code_simp

lemma example_label: "js_BigInt (label exampleNote) = Some 77"
  by code_simp

lemma example_encoder: "exampleEncoder (''0x01'', ''0x'') 9 = Some (stringBytes ''0x010x9'')"
  by code_simp

theorem commitment_composition_witness:
  "\<exists>n s c.
    deriveChangeNullifier examplePrims (KeyBig 5) examplePool 0 1 = Some n \<and>
    deriveChangeSecret examplePrims (KeyBig 5) examplePool 0 1 = Some s \<and>
    derivedNoteCommitment examplePrims 5 exampleNote =
      Some (poseidon3 examplePrims 600000 77 (poseidon2 examplePrims n s)) \<and>
    calculateWithdrawalContext examplePrims exampleEncoder exampleNote 5 (''0x01'', ''0x'') 9 = Some c \<and>
    existingCommitment c = poseidon3 examplePrims 600000 77 (poseidon2 examplePrims n s) \<and>
    existingNullifier c = n \<and> existingSecret c = s"
proof -
  have p: "validPool examplePrims (poolAddress exampleNote)"
    using example_valid by (simp add: exampleNote_sel)
  have i: "inUint64 (depositIndex exampleNote)" "inUint64 (changeIndex exampleNote)"
    "inUint64 (changeIndex exampleNote + 1)"
    by (simp_all add: exampleNote_sel inUint64_def)
  from commitment_composition[where enc=exampleEncoder and wd="(''0x01'', ''0x'')" and scope=9
      and k=5, OF example_amount example_label p i example_encoder]
  show ?thesis by (simp add: exampleNote_sel)
qed

subsection \<open>The cross-chain context\<close>


















lemma map_changeIndex_mark:
  "map changeIndex (chain[i := (chain ! i)\<lparr>status := Spent\<rparr>]) = map changeIndex chain"
proof (cases "i < length chain")
  case True
  then have "(map changeIndex chain)[i := (map changeIndex chain) ! i] = map changeIndex chain"
    by (simp only: list_update_id)
  then show ?thesis using True by (simp add: map_update)
next
  case False
  then have "length chain \<le> i" by simp
  then have "chain[i := (chain ! i)\<lparr>status := Spent\<rparr>] = chain" by (rule list_update_beyond)
  then show ?thesis by (rule arg_cong)
qed

lemma contiguous_mark_spent:
  "contiguous chain \<Longrightarrow> contiguous (chain[i := (chain ! i)\<lparr>status := Spent\<rparr>])"
  using map_changeIndex_mark[of chain i] by (simp add: contiguous_def)

lemma contiguous_append:
  "contiguous chain \<Longrightarrow> changeIndex note = int (length chain) \<Longrightarrow> contiguous (chain @ [note])"
  by (simp add: contiguous_def)

lemma contiguous_step:
  assumes "contiguous chain" "chIndex = int (length chain)"
  shows "contiguous (chain[length chain - 1 := (last chain)\<lparr>status := Spent\<rparr>] @
           [changeNoteOf (chain[length chain - 1 := (last chain)\<lparr>status := Spent\<rparr>]) chIndex r w])"
proof -
  have ne: "chain \<noteq> []" using assms(1) by (simp add: contiguous_def)
  then have "last chain = chain ! (length chain - 1)" by (simp add: last_conv_nth)
  then have "contiguous (chain[length chain - 1 := (last chain)\<lparr>status := Spent\<rparr>])"
    using contiguous_mark_spent[OF assms(1), of "length chain - 1"] by simp
  then show ?thesis using assms(2)
    by (intro contiguous_append) (simp_all add: changeNoteOf_def)
qed

lemma extendLoop_contiguous:
  assumes "extendLoop P page k pool chain rem chIndex cur m = Some y"
    and "contiguous chain" and "chIndex = int (length chain)"
  shows "contiguous (fst y)"
proof -
  let ?Q = "\<lambda>t (y :: NoteChain \<times> nat). case t of
      ((((((((P :: prims, page :: Activity list), k :: int), pool :: string), chain), rem :: int), chIndex),
        cur :: int), m :: nat) \<Rightarrow>
        contiguous chain \<longrightarrow> chIndex = int (length chain) \<longrightarrow> contiguous (fst y)"
  have "?Q ((((((((P, page), k), pool), chain), rem), chIndex), cur), m) y"
  proof (rule extendLoop.raw_induct[where Pa = ?Q, OF _ assms(1)], goal_cases)
    case (1 loop P page k pool chain rem chIndex cur m y)
    show ?case
    proof (clarsimp)
      assume c: "contiguous chain" and i: "chIndex = int (length chain)"
      note step = contiguous_step[OF c i]
      have ih: "\<And>ch r n mm z. loop P page k pool ch r (int (length chain) + 1) n mm = Some z
          \<Longrightarrow> contiguous ch \<Longrightarrow> length ch = Suc (length chain) \<Longrightarrow> contiguous (fst z)"
        using 1(1) by (fastforce)
      from 1(2) show "contiguous (fst y)"
        using c step ih i
        by (auto simp: Let_def split: option.splits if_splits)
    qed
  qed
  then show ?thesis using assms(2,3) by simp
qed


lemma contiguous_last: "contiguous chain \<Longrightarrow> changeIndex (last chain) = int (length chain) - 1"
proof -
  assume c: "contiguous chain"
  then have ne: "chain \<noteq> []" by (simp add: contiguous_def)
  have "changeIndex (last chain) = last (map changeIndex chain)" using ne by (simp add: last_map)
  also have "\<dots> = last (map int [0..<length chain])" using c by (simp add: contiguous_def)
  also have "\<dots> = int (length chain - 1)" using ne by (simp add: last_map)
  finally show ?thesis using ne by (simp add: of_nat_diff Suc_leI)
qed

lemma contiguous_hd: "contiguous chain \<Longrightarrow> changeIndex (hd chain) = 0"
proof -
  assume c: "contiguous chain"
  then have ne: "chain \<noteq> []" by (simp add: contiguous_def)
  have "changeIndex (hd chain) = hd (map changeIndex chain)" using ne by (simp add: hd_map)
  also have "\<dots> = hd (map int [0..<length chain])" using c by (simp add: contiguous_def)
  also have "\<dots> = 0" using ne by (simp add: hd_map upt_conv_Cons)
  finally show ?thesis .
qed

lemma contiguous_increasing: "contiguous chain \<Longrightarrow> sorted_wrt (<) (map changeIndex chain)"
  by (simp add: contiguous_def sorted_wrt_map sorted_wrt_upt)

lemma extendChainInPlace_contiguous:
  assumes "extendChainInPlace P chain page k pool = Some y" and "contiguous chain"
  shows "contiguous (fst y)"
proof -
  have l: "changeIndex (last chain) + 1 = int (length chain)"
    using contiguous_last[OF assms(2)] by simp
  have ci: "(if changeIndex (last chain) = 0 then 1 else changeIndex (last chain) + 1) = int (length chain)"
    using l by auto
  from assms(1) show ?thesis
    unfolding extendChainInPlace_def Let_def ci
    using assms(2) extendLoop_contiguous[where chain=chain and chIndex="int (length chain)"]
    by (auto split: option.splits if_splits)
qed

lemma depositNote_contiguous: "contiguous [depositNoteOf a i pool]"
  by (simp add: contiguous_def depositNoteOf_def)

lemma buildChain_contiguous:
  assumes "buildChainForDepositInPage P a i page k pool = Some chain"
  shows "contiguous chain"
  using assms extendChainInPlace_contiguous[OF _ depositNote_contiguous]
  by (auto simp: buildChainForDepositInPage_def Let_def)

lemma allContiguous_update:
  "allContiguous ns \<Longrightarrow> contiguous c \<Longrightarrow> allContiguous (ns[i := c])"
  unfolding allContiguous_def list_all_iff using set_update_subset_insert[of ns i c] by auto

lemma allContiguous_nth: "allContiguous ns \<Longrightarrow> i < length ns \<Longrightarrow> contiguous (ns ! i)"
  by (simp add: allContiguous_def list_all_length)

lemma extendLiveDeposits_contiguous:
  assumes "extendLiveDeposits P acts k pool snapshot ns live = Some y" and "allContiguous ns"
  shows "allContiguous (fst y)"
  using assms
proof (induction P acts k pool snapshot ns live rule: extendLiveDeposits.induct)
  case (1 P acts k pool ns live)
  then show ?case by auto
next
  case (2 P acts k pool ld rest ns live)
  show ?case
  proof (cases "length ns \<le> ld_chainIndex ld")
    case True
    then show ?thesis using 2 by simp
  next
    case False
    then have lt: "ld_chainIndex ld < length ns" by simp
    from "2.prems"(1) False obtain chain m where
      e: "extendChainInPlace P (ns ! ld_chainIndex ld) acts k pool = Some (chain, m)"
      by (auto split: option.splits)
    have c: "contiguous chain"
      using extendChainInPlace_contiguous[OF e allContiguous_nth[OF "2.prems"(2) lt]] by simp
    have a: "allContiguous (ns[ld_chainIndex ld := chain])"
      by (rule allContiguous_update[OF "2.prems"(2) c])
    show ?thesis
    proof (cases "0 < m")
      case True
      with "2.prems"(1) False e obtain live1 where
        r: "reconcileLive ld (last chain) live = Some live1"
        and rest: "extendLiveDeposits P acts k pool rest (ns[ld_chainIndex ld := chain]) live1 = Some y"
        by (auto simp: Let_def split: option.splits)
      show ?thesis
        by (rule "2.IH"(2)[OF False e refl refl True r rest a])
    next
      case m0: False
      with "2.prems"(1) False e have
        rest: "extendLiveDeposits P acts k pool rest (ns[ld_chainIndex ld := chain]) live = Some y"
        by (auto simp: Let_def split: option.splits)
      show ?thesis
        by (rule "2.IH"(3)[OF False e refl refl m0 rest a])
    qed
  qed
qed

lemma allContiguous_snoc: "allContiguous ns \<Longrightarrow> contiguous c \<Longrightarrow> allContiguous (ns @ [c])"
  by (simp add: allContiguous_def)

lemma scanCandidate_stateOk:
  assumes "scanCandidate P acts k pool st = Some (st', matched)" and "stateOk st"
  shows "stateOk st'"
proof -
  from assms(1) consider
    (stop) "st' = st\<lparr> st_polls := st_polls st + 1,
                      st_progress := (st_progress st)
                        \<lparr> depositsChecked := depositsChecked (st_progress st) + 1 \<rparr> \<rparr>"
  | (match) pos newChain where
      "buildChainForDepositInPage P (acts ! pos) (st_nextDepositIndex st) (drop (pos + 1) acts) k pool
         = Some newChain"
      "st_notes st' = st_notes st @ [newChain]" "st_stored st' = st_stored st"
    unfolding scanCandidate_def Let_def
    by (auto split: option.splits)
  then show ?thesis
  proof cases
    case stop
    then show ?thesis using assms(2) by (simp add: stateOk_def)
  next
    case match
    then show ?thesis
      using assms(2) buildChain_contiguous[OF match(1)]
      by (simp add: stateOk_def allContiguous_snoc)
  qed
qed

lemma scanDeposits_stateOk:
  assumes "scanDeposits P opts acts k pool st = Some y" and "stateOk st"
  shows "stateOk y"
proof -
  let ?Q = "\<lambda>t (y :: DiscoveryState). case t of
      (((((P :: prims, opts :: DiscoveryOptions), acts :: Activity list), k :: int), pool :: string), st)
        \<Rightarrow> stateOk st \<longrightarrow> stateOk y"
  have "?Q (((((P, opts), acts), k), pool), st) y"
  proof (rule scanDeposits.raw_induct[where Pa = ?Q, OF _ assms(1)], goal_cases)
    case (1 scan P opts acts k pool st y)
    show ?case
    proof (clarsimp)
      assume ok: "stateOk st"
      have ih: "\<And>st' z. scan P opts acts k pool st' = Some z \<Longrightarrow> stateOk st' \<Longrightarrow> stateOk z"
        using 1(1) by fastforce
      from 1(2) obtain st1 matched where
        c: "scanCandidate P acts k pool st = Some (st1, matched)"
        and r: "(if matched then scan P opts acts k pool st1 else Some st1) = Some y"
        by (auto split: option.splits if_splits)
      have ok1: "stateOk st1" by (rule scanCandidate_stateOk[OF c ok])
      from r show "stateOk y" using ih ok1 by (auto split: if_splits)
    qed
  qed
  then show ?thesis using assms(2) by simp
qed

lemma processPage_stateOk:
  assumes "processPage P opts k pool st page = Some st3" and "stateOk st"
  shows "stateOk st3"
proof -
  define st1 where "st1 = st\<lparr> st_polls := st_polls st + 1,
                    st_cursor := endCursor page,
                    st_pagesProcessed := st_pagesProcessed st + 1,
                    st_progress := (st_progress st)
                      \<lparr> pagesProcessed := st_pagesProcessed st + 1,
                        currentPageActivityCount := length (items page),
                        lastCursor := endCursor page \<rparr> \<rparr>"
  have ok1: "stateOk st1" using assms(2) by (simp add: st1_def stateOk_def)
  from assms(1) obtain ns live st2 where
    ext: "(if st_liveDeposits st1 \<noteq> []
           then extendLiveDeposits P (items page) k pool (st_liveDeposits st1)
                  (st_notes st1) (st_liveDeposits st1)
           else Some (st_notes st1, st_liveDeposits st1)) = Some (ns, live)"
    and sc: "scanDeposits P opts (items page) k pool
               (st1\<lparr> st_notes := ns, st_liveDeposits := live \<rparr>) = Some st2"
    and fin: "st3 = st2\<lparr> st_stored := st_stored st2 @ [(st_notes st2, st_cursor st2)] \<rparr>"
    unfolding processPage_def Let_def st1_def
    by (auto split: option.splits)
  have nsok: "allContiguous ns"
  proof (cases "st_liveDeposits st1 \<noteq> []")
    case True
    then have "extendLiveDeposits P (items page) k pool (st_liveDeposits st1)
                  (st_notes st1) (st_liveDeposits st1) = Some (ns, live)" using ext by simp
    from extendLiveDeposits_contiguous[OF this] ok1 show ?thesis by (simp add: stateOk_def)
  next
    case False
    then show ?thesis using ext ok1 by (simp add: stateOk_def)
  qed
  have "stateOk (st1\<lparr> st_notes := ns, st_liveDeposits := live \<rparr>)"
    using ok1 nsok by (simp add: stateOk_def)
  then have ok2: "stateOk st2" by (rule scanDeposits_stateOk[OF sc])
  then show ?thesis unfolding fin by (simp add: stateOk_def)
qed

lemma discoverLoop_stateOk:
  assumes "discoverLoop P fetch opts k pool st = Some y" and "stateOk st"
  shows "stateOk y"
proof -
  let ?Q = "\<lambda>t (y :: DiscoveryState). case t of
      (((((P :: prims, fetch :: string option \<Rightarrow> Page option), opts :: DiscoveryOptions), k :: int),
         pool :: string), st)
        \<Rightarrow> stateOk st \<longrightarrow> stateOk y"
  have "?Q (((((P, fetch), opts), k), pool), st) y"
  proof (rule discoverLoop.raw_induct[where Pa = ?Q, OF _ assms(1)], goal_cases)
    case (1 loop P fetch opts k pool st y)
    show ?case
    proof (clarsimp)
      assume ok: "stateOk st"
      have ih: "\<And>st' z. loop P fetch opts k pool st' = Some z \<Longrightarrow> stateOk st' \<Longrightarrow> stateOk z"
        using 1(1) by fastforce
      show "stateOk y"
      proof (cases "morePages opts st")
        case False
        then show ?thesis using 1(2) ok by simp
      next
        case True
        with 1(2) obtain page st3 where pg: "fetch (st_cursor st) = Some page"
          and pp: "processPage P opts k pool st page = Some st3"
          and fin: "(if hasNextPage page then loop P fetch opts k pool st3 else Some st3) = Some y"
          by (auto split: if_splits option.splits)
        have ok3: "stateOk st3" by (rule processPage_stateOk[OF pp ok])
        from fin show ?thesis using ih ok3 by (auto split: if_splits)
      qed
    qed
  qed
  then show ?thesis using assms(2) by simp
qed

lemma initLiveDeposits_total_contiguous:
  "allContiguous ns \<Longrightarrow> True"
  by simp

lemma initial_stateOk:
  "cachedOk cached \<Longrightarrow>
   stateOk \<lparr> st_notes = (case cached of None \<Rightarrow> [] | Some c \<Rightarrow> res_notes c),
             st_lastUsedIndex = a, st_nextDepositIndex = b, st_liveDeposits = c, st_cursor = d,
             st_pagesProcessed = e, st_progress = f, st_polls = g, st_stored = [] \<rparr>"
  by (simp add: stateOk_def cachedOk_def allContiguous_def split: option.splits)

lemma discoverNotes_contiguous:
  assumes "discoverNotes P cached fetch opts pool k = Some r" and "cachedOk cached"
  shows "allContiguous (res_notes r)"
proof -
  from assms(1) obtain st0 st where
    loop: "discoverLoop P fetch opts k pool st0 = Some st"
    and st0: "st_notes st0 = (case cached of None \<Rightarrow> [] | Some c \<Rightarrow> res_notes c)"
      "st_stored st0 = []"
    and r: "res_notes r = st_notes st"
    unfolding discoverNotes_def Let_def
    by (auto split: option.splits if_splits)
  have "stateOk st0" using assms(2) st0
    by (simp add: stateOk_def cachedOk_def allContiguous_def split: option.splits)
  from discoverLoop_stateOk[OF loop this] show ?thesis by (simp add: r stateOk_def)
qed

subsection \<open>Chain indices\<close>

text \<open>
  Claim C5. When \<open>discoverNotes\<close> returns from any sequence of pages, started from no
  cached state or from a cached state whose chains have change indices \<open>0, 1, 2, \<dots>\<close>,
  every chain of the result is non-empty, has its head at change index 0 and change
  indices \<open>0, 1, 2, \<dots>\<close> contiguous and strictly increasing. New-chain construction
  yields such a chain, and chain extension preserves the property.
\<close>

theorem discovery_chain_indices:
  "(discoverNotes P cached fetch opts pool k = Some r \<and> cachedOk cached \<longrightarrow>
      (\<forall>chain\<in>set (res_notes r).
         chain \<noteq> [] \<and> changeIndex (hd chain) = 0 \<and>
         map changeIndex chain = map int [0..<length chain] \<and>
         sorted_wrt (<) (map changeIndex chain))) \<and>
   (buildChainForDepositInPage P depositActivity dIndex after k pool = Some newChain \<longrightarrow>
      contiguous newChain) \<and>
   (contiguous chain0 \<and> extendChainInPlace P chain0 page k pool = Some (chain1, m) \<longrightarrow>
      contiguous chain1)"
proof (intro conjI impI)
  assume a: "discoverNotes P cached fetch opts pool k = Some r \<and> cachedOk cached"
  then have "allContiguous (res_notes r)" using discoverNotes_contiguous by blast
  then have "\<forall>chain\<in>set (res_notes r). contiguous chain"
    by (simp add: allContiguous_def list_all_iff)
  then show "\<forall>chain\<in>set (res_notes r).
         chain \<noteq> [] \<and> changeIndex (hd chain) = 0 \<and>
         map changeIndex chain = map int [0..<length chain] \<and>
         sorted_wrt (<) (map changeIndex chain)"
    using contiguous_hd contiguous_increasing by (auto simp: contiguous_def)
next
  assume "buildChainForDepositInPage P depositActivity dIndex after k pool = Some newChain"
  then show "contiguous newChain" by (rule buildChain_contiguous)
next
  assume "contiguous chain0 \<and> extendChainInPlace P chain0 page k pool = Some (chain1, m)"
  then show "contiguous chain1" using extendChainInPlace_contiguous by fastforce
qed

lemma example_run:
  "map_option (\<lambda>r. map (map (\<lambda>n. (amount n, status n))) (res_notes r))
     (discoverNotes examplePrims None exampleFetch exampleOptions examplePool 5) =
   Some [[(Some ''1000000'', Spent), (Some ''600000'', Spent), (Some ''0'', Spent)]]"
  by code_simp

theorem discovery_chain_indices_witness:
  "\<exists>r. discoverNotes examplePrims None exampleFetch exampleOptions examplePool 5 = Some r \<and>
        map (map changeIndex) (res_notes r) = [[0, 1, 2]] \<and>
        map (map amount) (res_notes r) = [[Some ''1000000'', Some ''600000'', Some ''0'']]"
proof -
  from example_run obtain r where
    r: "discoverNotes examplePrims None exampleFetch exampleOptions examplePool 5 = Some r"
    and m: "map (map (\<lambda>n. (amount n, status n))) (res_notes r) =
       [[(Some ''1000000'', Spent), (Some ''600000'', Spent), (Some ''0'', Spent)]]"
    by auto
  from m obtain chain where ch: "res_notes r = [chain]"
    and l: "map (\<lambda>n. (amount n, status n)) chain =
       [(Some ''1000000'', Spent), (Some ''600000'', Spent), (Some ''0'', Spent)]"
    by (auto simp: map_eq_Cons_conv)
  have len: "length chain = 3" using arg_cong[OF l, of length] by simp
  have ok: "cachedOk None" by (simp add: cachedOk_def)
  from discovery_chain_indices[of examplePrims None exampleFetch exampleOptions examplePool 5 r]
    r ok ch
  have "map changeIndex chain = map int [0..<length chain]" by simp
  then have idx: "map changeIndex chain = [0, 1, 2]"
    by (simp add: len upt_rec numeral_3_eq_3)
  have "map amount chain = map fst (map (\<lambda>n. (amount n, status n)) chain)" by (simp add: comp_def)
  then have am: "map amount chain = [Some ''1000000'', Some ''600000'', Some ''0'']"
    by (simp only: l) simp
  show ?thesis using r ch idx am by simp
qed

subsection \<open>Chain extension\<close>

lemma extendLoop_stop:
  "find (isWithdrawalOf (nullifierHash P cur)) page = None \<Longrightarrow>
   extendLoop P page k pool chain rem chIndex cur m = Some (chain, m)"
  by (subst extendLoop.simps) (simp add: nullifierHash_def)

lemma extendLoop_guard:
  "find (isWithdrawalOf (nullifierHash P cur)) page = Some w \<Longrightarrow>
   \<not> truthyStr (act_newCommitment w) \<or> \<not> truthyBig (act_amount w) \<Longrightarrow>
   extendLoop P page k pool chain rem chIndex cur m = Some (chain, m)"
  by (subst extendLoop.simps) (auto simp: nullifierHash_def truthyBig_def split: option.splits)

lemma hd_mark_spent:
  "chain \<noteq> [] \<Longrightarrow>
   depositIndex (hd (chain[length chain - Suc 0 := (last chain)\<lparr>status := Spent\<rparr>])) =
   depositIndex (hd chain)"
proof (cases chain)
  case Nil
  then show "chain \<noteq> [] \<Longrightarrow> ?thesis" by simp
next
  case (Cons x xs)
  then show ?thesis by (cases xs) (simp_all)
qed

lemma extendLoop_step:
  assumes "find (isWithdrawalOf (nullifierHash P cur)) page = Some w"
    and "act_amount w = Some amt" and "amt \<noteq> 0" and "truthyStr (act_newCommitment w)"
    and "chain \<noteq> []"
  shows "extendLoop P page k pool chain rem chIndex cur m =
    (let spent = chain[length chain - 1 := (last chain)\<lparr>status := Spent\<rparr>];
         chain2 = spent @ [changeNoteOf spent chIndex (rem - amt) w]
     in if rem - amt \<le> 0 then Some (chain2, m + 1)
        else case deriveChangeNullifier P (KeyBig k) pool (depositIndex (hd chain)) chIndex of
               None \<Rightarrow> None
             | Some nextNullifier \<Rightarrow>
                 extendLoop P page k pool chain2 (rem - amt) (chIndex + 1) nextNullifier (m + 1))"
  using assms
  by (subst extendLoop.simps) (simp add: nullifierHash_def Let_def hd_mark_spent)

lemma extendChainInPlace_init:
  assumes "chain \<noteq> []" and "amount (last chain) = Some s" and "js_BigInt s = Some rem"
    and "tailNullifier P k pool chain = Some cur"
  shows "extendChainInPlace P chain page k pool =
           extendLoop P page k pool chain rem (changeIndex (last chain) + 1) cur 0"
  using assms by (auto simp: extendChainInPlace_def tailNullifier_def Let_def)

lemma extendChainInPlace_pending:
  "chain \<noteq> [] \<Longrightarrow> amount (last chain) = None \<Longrightarrow>
   extendChainInPlace P chain page k pool = Some (chain, 0)"
  by (simp add: extendChainInPlace_def)

lemma changeNoteOf_fields:
  "chain \<noteq> [] \<Longrightarrow>
   changeIndex (changeNoteOf (chain[length chain - 1 := (last chain)\<lparr>status := Spent\<rparr>]) ci r w) = ci \<and>
   amount (changeNoteOf (chain[length chain - 1 := (last chain)\<lparr>status := Spent\<rparr>]) ci r w)
     = Some (toString r) \<and>
   (status (changeNoteOf (chain[length chain - 1 := (last chain)\<lparr>status := Spent\<rparr>]) ci r w) = Unspent
     \<longleftrightarrow> 0 < r) \<and>
   isActivated (changeNoteOf (chain[length chain - 1 := (last chain)\<lparr>status := Spent\<rparr>]) ci r w) \<and>
   label (changeNoteOf (chain[length chain - 1 := (last chain)\<lparr>status := Spent\<rparr>]) ci r w)
     = label (hd chain) \<and>
   refundCommitment (changeNoteOf (chain[length chain - 1 := (last chain)\<lparr>status := Spent\<rparr>]) ci r w)
     = act_refundCommitment w"
proof (cases chain)
  case Nil
  then show "chain \<noteq> [] \<Longrightarrow> ?thesis" by simp
next
  case (Cons x xs)
  then show ?thesis by (cases xs) (simp_all add: changeNoteOf_def)
qed

lemma last_mark_spent:
  "chain \<noteq> [] \<Longrightarrow> status (last (chain[length chain - 1 := (last chain)\<lparr>status := Spent\<rparr>])) = Spent"
  by (simp add: last_list_update)

text \<open>
  Claim C4, amended. During chain extension on a page, the loop starts from the tail
  note: its amount, the next change index, and its nullifier (the deposit nullifier when
  its change index is 0, otherwise the change nullifier at its change index). When the
  first withdrawal of the page whose \<open>spentNullifier\<close> is the \<open>poseidon1\<close> hash of the
  current nullifier also carries a new commitment and a non-zero amount, the tail is
  marked spent and a change note is appended with the next change index, amount
  \<open>remaining - withdrawal.amount\<close>, status unspent iff that amount is positive,
  \<open>isActivated = true\<close>, the label of the chain head and the withdrawal's refund
  commitment; the loop ends there when the remaining amount is \<open>\<le> 0\<close> and otherwise goes
  on from the new tail, with its change nullifier. It ends, leaving the chain and the
  count as they are, when no withdrawal matches, and when the first matching withdrawal
  lacks a new commitment or has a null or zero amount.
\<close>

theorem chain_extension_step:
  "(chain \<noteq> [] \<and> amount (last chain) = Some s \<and> js_BigInt s = Some rem \<and>
    tailNullifier P k pool chain = Some cur \<longrightarrow>
      extendChainInPlace P chain page k pool =
        extendLoop P page k pool chain rem (changeIndex (last chain) + 1) cur 0) \<and>
   (chain \<noteq> [] \<and> find (isWithdrawalOf (nullifierHash P cur)) page = Some w \<and>
    act_amount w = Some amt \<and> amt \<noteq> 0 \<and> truthyStr (act_newCommitment w) \<longrightarrow>
      (let spent = chain[length chain - 1 := (last chain)\<lparr>status := Spent\<rparr>];
           note = changeNoteOf spent chIndex (rem - amt) w
       in status (last spent) = Spent \<and>
          changeIndex note = chIndex \<and>
          amount note = Some (toString (rem - amt)) \<and>
          (status note = Unspent \<longleftrightarrow> 0 < rem - amt) \<and>
          isActivated note \<and>
          label note = label (hd chain) \<and>
          refundCommitment note = act_refundCommitment w \<and>
          extendLoop P page k pool chain rem chIndex cur m =
            (if rem - amt \<le> 0 then Some (spent @ [note], m + 1)
             else case deriveChangeNullifier P (KeyBig k) pool (depositIndex (hd chain)) chIndex of
                    None \<Rightarrow> None
                  | Some nextNullifier \<Rightarrow>
                      extendLoop P page k pool (spent @ [note]) (rem - amt) (chIndex + 1)
                        nextNullifier (m + 1)))) \<and>
   (find (isWithdrawalOf (nullifierHash P cur)) page = None \<longrightarrow>
      extendLoop P page k pool chain rem chIndex cur m = Some (chain, m)) \<and>
   (find (isWithdrawalOf (nullifierHash P cur)) page = Some w \<and>
    (\<not> truthyStr (act_newCommitment w) \<or> \<not> truthyBig (act_amount w)) \<longrightarrow>
      extendLoop P page k pool chain rem chIndex cur m = Some (chain, m))"
proof (intro conjI impI)
  assume "chain \<noteq> [] \<and> amount (last chain) = Some s \<and> js_BigInt s = Some rem \<and>
    tailNullifier P k pool chain = Some cur"
  then show "extendChainInPlace P chain page k pool =
        extendLoop P page k pool chain rem (changeIndex (last chain) + 1) cur 0"
    using extendChainInPlace_init by blast
next
  assume a: "chain \<noteq> [] \<and> find (isWithdrawalOf (nullifierHash P cur)) page = Some w \<and>
    act_amount w = Some amt \<and> amt \<noteq> 0 \<and> truthyStr (act_newCommitment w)"
  then have ne: "chain \<noteq> []" by simp
  from a have st: "extendLoop P page k pool chain rem chIndex cur m =
    (let spent = chain[length chain - 1 := (last chain)\<lparr>status := Spent\<rparr>];
         chain2 = spent @ [changeNoteOf spent chIndex (rem - amt) w]
     in if rem - amt \<le> 0 then Some (chain2, m + 1)
        else case deriveChangeNullifier P (KeyBig k) pool (depositIndex (hd chain)) chIndex of
               None \<Rightarrow> None
             | Some nextNullifier \<Rightarrow>
                 extendLoop P page k pool chain2 (rem - amt) (chIndex + 1) nextNullifier (m + 1))"
    by (intro extendLoop_step) simp_all
  show "let spent = chain[length chain - 1 := (last chain)\<lparr>status := Spent\<rparr>];
           note = changeNoteOf spent chIndex (rem - amt) w
       in status (last spent) = Spent \<and>
          changeIndex note = chIndex \<and>
          amount note = Some (toString (rem - amt)) \<and>
          (status note = Unspent \<longleftrightarrow> 0 < rem - amt) \<and>
          isActivated note \<and>
          label note = label (hd chain) \<and>
          refundCommitment note = act_refundCommitment w \<and>
          extendLoop P page k pool chain rem chIndex cur m =
            (if rem - amt \<le> 0 then Some (spent @ [note], m + 1)
             else case deriveChangeNullifier P (KeyBig k) pool (depositIndex (hd chain)) chIndex of
                    None \<Rightarrow> None
                  | Some nextNullifier \<Rightarrow>
                      extendLoop P page k pool (spent @ [note]) (rem - amt) (chIndex + 1)
                        nextNullifier (m + 1))"
    unfolding Let_def
    using changeNoteOf_fields[OF ne, of chIndex "rem - amt" w] last_mark_spent[OF ne]
      st[unfolded Let_def]
    by simp
next
  assume "find (isWithdrawalOf (nullifierHash P cur)) page = None"
  then show "extendLoop P page k pool chain rem chIndex cur m = Some (chain, m)"
    by (rule extendLoop_stop)
next
  assume "find (isWithdrawalOf (nullifierHash P cur)) page = Some w \<and>
    (\<not> truthyStr (act_newCommitment w) \<or> \<not> truthyBig (act_amount w))"
  then show "extendLoop P page k pool chain rem chIndex cur m = Some (chain, m)"
    using extendLoop_guard by blast
qed

lemma example_tail:
  "tailNullifier examplePrims 5 examplePool [exampleDepositNote] = Some 531778"
  "amount (last [exampleDepositNote]) = Some ''1000000''"
  "js_BigInt ''1000000'' = Some 1000000"
  "depositIndex (hd [exampleDepositNote]) = 0"
  by code_simp+

lemma example_find1:
  "find (isWithdrawalOf (nullifierHash examplePrims 531778)) [exampleWithdrawal1]
     = Some exampleWithdrawal1"
  "act_amount exampleWithdrawal1 = Some 400000"
  "truthyStr (act_newCommitment exampleWithdrawal1)"
  "find (isWithdrawalOf (nullifierHash examplePrims 770621)) [exampleWithdrawal1] = None"
  by code_simp+

lemma example_change1:
  "deriveChangeNullifier examplePrims (KeyBig 5) examplePool 0 1 = Some 770621"
  by code_simp

lemma example_find2:
  "find (isWithdrawalOf (nullifierHash examplePrims 531778))
     [exampleWithdrawal1, exampleWithdrawal2Bare] = Some exampleWithdrawal1"
  "find (isWithdrawalOf (nullifierHash examplePrims 770621))
     [exampleWithdrawal1, exampleWithdrawal2Bare] = Some exampleWithdrawal2Bare"
  "\<not> truthyStr (act_newCommitment exampleWithdrawal2Bare)"
  by code_simp+

theorem chain_extension_step_witness:
  "extendChainInPlace examplePrims [exampleDepositNote] [exampleWithdrawal1] 5 examplePool =
     Some ([exampleDepositNote\<lparr>status := Spent\<rparr>,
            changeNoteOf [exampleDepositNote\<lparr>status := Spent\<rparr>] 1 600000 exampleWithdrawal1], 1) \<and>
   amount (changeNoteOf [exampleDepositNote\<lparr>status := Spent\<rparr>] 1 600000 exampleWithdrawal1)
     = Some (toString 600000) \<and>
   status (changeNoteOf [exampleDepositNote\<lparr>status := Spent\<rparr>] 1 600000 exampleWithdrawal1)
     = Unspent \<and>
   extendChainInPlace examplePrims [exampleDepositNote]
       [exampleWithdrawal1, exampleWithdrawal2Bare] 5 examplePool =
     Some ([exampleDepositNote\<lparr>status := Spent\<rparr>,
            changeNoteOf [exampleDepositNote\<lparr>status := Spent\<rparr>] 1 600000 exampleWithdrawal1], 1)"
proof -
  let ?chain = "[exampleDepositNote]"
  let ?page = "[exampleWithdrawal1]"
  let ?page2 = "[exampleWithdrawal1, exampleWithdrawal2Bare]"
  let ?spent = "[exampleDepositNote\<lparr>status := Spent\<rparr>]"
  let ?note = "changeNoteOf ?spent 1 600000 exampleWithdrawal1"
  have ci: "changeIndex (last ?chain) + 1 = 1"
    by (simp add: exampleDepositNote_def depositNoteOf_def)
  from chain_extension_step[of ?chain "''1000000''" 1000000 examplePrims 5 examplePool 531778
      ?page exampleWithdrawal1 400000 1 0]
  have init: "extendChainInPlace examplePrims ?chain ?page 5 examplePool =
      extendLoop examplePrims ?page 5 examplePool ?chain 1000000 1 531778 0"
    and step: "extendLoop examplePrims ?page 5 examplePool ?chain 1000000 1 531778 0 =
      extendLoop examplePrims ?page 5 examplePool (?spent @ [?note]) 600000 2 770621 1"
    and fields: "amount ?note = Some (toString 600000)" "status ?note = Unspent"
    using example_tail example_find1 example_change1 ci
    by (simp_all add: Let_def)
  from chain_extension_step[of "?spent @ [?note]" _ 600000 examplePrims 5 examplePool 770621
      ?page _ _ 2 1]
  have stop: "extendLoop examplePrims ?page 5 examplePool (?spent @ [?note]) 600000 2 770621 1 =
      Some (?spent @ [?note], 1)"
    using example_find1(4) by simp
  from chain_extension_step[of ?chain "''1000000''" 1000000 examplePrims 5 examplePool 531778
      ?page2 exampleWithdrawal1 400000 1 0]
  have init2: "extendChainInPlace examplePrims ?chain ?page2 5 examplePool =
      extendLoop examplePrims ?page2 5 examplePool ?chain 1000000 1 531778 0"
    and step2: "extendLoop examplePrims ?page2 5 examplePool ?chain 1000000 1 531778 0 =
      extendLoop examplePrims ?page2 5 examplePool (?spent @ [?note]) 600000 2 770621 1"
    using example_tail example_find1(2,3) example_find2(1) example_change1 ci
    by (simp_all add: Let_def)
  from chain_extension_step[of "?spent @ [?note]" _ 600000 examplePrims 5 examplePool 770621
      ?page2 exampleWithdrawal2Bare _ 2 1]
  have guard: "extendLoop examplePrims ?page2 5 examplePool (?spent @ [?note]) 600000 2 770621 1 =
      Some (?spent @ [?note], 1)"
    using example_find2(2,3) by simp
  show ?thesis using init step stop fields init2 step2 guard by simp
qed

theorem chain_extension_unguarded_counterexample:
  "tailNullifier examplePrims 5 examplePool [exampleDepositNote] = Some 531778 \<and>
   act_spentNullifier exampleWithdrawalBare = Some (nullifierHash examplePrims 531778) \<and>
   act_type exampleWithdrawalBare = WITHDRAWAL \<and>
   extendChainInPlace examplePrims [exampleDepositNote] [exampleWithdrawalBare] 5 examplePool =
     Some ([exampleDepositNote], 0) \<and>
   status exampleDepositNote = Unspent"
  by code_simp

lemma extendChainInPlace_changed:
  assumes "extendChainInPlace P chain page k pool = Some (chain', n)"
    and "chain' \<noteq> chain \<or> 0 < n"
  shows "\<exists>cur w amt. tailNullifier P k pool chain = Some cur \<and>
           find (isWithdrawalOf (nullifierHash P cur)) page = Some w \<and>
           act_newCommitment w \<noteq> None \<and> act_amount w = Some amt \<and> amt \<noteq> 0"
proof -
  from assms obtain s rem cur where
    ne: "chain \<noteq> []" and t: "tailNullifier P k pool chain = Some cur"
    and l: "extendLoop P page k pool chain rem (changeIndex (last chain) + 1) cur 0 = Some (chain', n)"
    unfolding extendChainInPlace_def tailNullifier_def Let_def
    by (auto split: option.splits if_splits)
  show ?thesis
  proof (cases "find (isWithdrawalOf (nullifierHash P cur)) page")
    case None
    from extendLoop_stop[OF None] l assms(2) show ?thesis by simp
  next
    case (Some w)
    show ?thesis
    proof (cases "\<not> truthyStr (act_newCommitment w) \<or> \<not> truthyBig (act_amount w)")
      case True
      from extendLoop_guard[OF Some True] l assms(2) show ?thesis by simp
    next
      case False
      then have "act_newCommitment w \<noteq> None" "\<exists>amt. act_amount w = Some amt \<and> amt \<noteq> 0"
        by (auto simp: truthyStr_def truthyBig_def split: option.splits)
      then show ?thesis using t Some by blast
    qed
  qed
qed

text \<open>
  Claim C10. Chain extension appends a change note only when the first activity of the
  page that is a withdrawal with \<open>spentNullifier\<close> equal to the tail's nullifier hash also
  carries a non-null \<open>newCommitment\<close> and a non-null, non-zero \<open>amount\<close>. If that
  withdrawal lacks either field, \<open>extendChainInPlace\<close> returns at once with the chain
  unchanged (the tail keeps its status) and zero withdrawals matched, although the spent
  nullifier matched.
\<close>

theorem extension_needs_commitment_and_amount:
  "(chain \<noteq> [] \<and> amount (last chain) = Some s \<and> js_BigInt s = Some rem \<and>
    tailNullifier P k pool chain = Some cur \<and>
    find (isWithdrawalOf (nullifierHash P cur)) page = Some w \<and>
    (act_newCommitment w = None \<or> act_amount w = None \<or> act_amount w = Some 0) \<longrightarrow>
      extendChainInPlace P chain page k pool = Some (chain, 0)) \<and>
   (extendChainInPlace P chain page k pool = Some (chain', n) \<and> (chain' \<noteq> chain \<or> 0 < n) \<longrightarrow>
      (\<exists>cur w amt. tailNullifier P k pool chain = Some cur \<and>
         find (isWithdrawalOf (nullifierHash P cur)) page = Some w \<and>
         act_newCommitment w \<noteq> None \<and> act_amount w = Some amt \<and> amt \<noteq> 0))"
proof (intro conjI impI)
  assume a: "chain \<noteq> [] \<and> amount (last chain) = Some s \<and> js_BigInt s = Some rem \<and>
    tailNullifier P k pool chain = Some cur \<and>
    find (isWithdrawalOf (nullifierHash P cur)) page = Some w \<and>
    (act_newCommitment w = None \<or> act_amount w = None \<or> act_amount w = Some 0)"
  then have g: "\<not> truthyStr (act_newCommitment w) \<or> \<not> truthyBig (act_amount w)"
    by (auto simp: truthyStr_def truthyBig_def)
  from a have f: "find (isWithdrawalOf (nullifierHash P cur)) page = Some w" by simp
  from a have "extendChainInPlace P chain page k pool =
      extendLoop P page k pool chain rem (changeIndex (last chain) + 1) cur 0"
    using extendChainInPlace_init by blast
  then show "extendChainInPlace P chain page k pool = Some (chain, 0)"
    using extendLoop_guard[OF f g] by simp
next
  assume "extendChainInPlace P chain page k pool = Some (chain', n) \<and> (chain' \<noteq> chain \<or> 0 < n)"
  then show "\<exists>cur w amt. tailNullifier P k pool chain = Some cur \<and>
         find (isWithdrawalOf (nullifierHash P cur)) page = Some w \<and>
         act_newCommitment w \<noteq> None \<and> act_amount w = Some amt \<and> amt \<noteq> 0"
    using extendChainInPlace_changed by blast
qed

lemma example_bare:
  "find (isWithdrawalOf (nullifierHash examplePrims 531778)) [exampleWithdrawalBare]
     = Some exampleWithdrawalBare"
  "act_newCommitment exampleWithdrawalBare = None"
  by code_simp+

lemma example_extended:
  "map_option snd
     (extendChainInPlace examplePrims [exampleDepositNote] [exampleWithdrawal1] 5 examplePool)
   = Some 1"
  by code_simp

theorem extension_needs_commitment_and_amount_witness:
  "extendChainInPlace examplePrims [exampleDepositNote] [exampleWithdrawalBare] 5 examplePool =
     Some ([exampleDepositNote], 0) \<and>
   (\<exists>cur w amt. tailNullifier examplePrims 5 examplePool [exampleDepositNote] = Some cur \<and>
      find (isWithdrawalOf (nullifierHash examplePrims cur)) [exampleWithdrawal1] = Some w \<and>
      act_newCommitment w \<noteq> None \<and> act_amount w = Some amt \<and> amt \<noteq> 0)"
proof -
  from extension_needs_commitment_and_amount[of "[exampleDepositNote]" "''1000000''" 1000000
      examplePrims 5 examplePool 531778 "[exampleWithdrawalBare]" exampleWithdrawalBare]
  have 1: "extendChainInPlace examplePrims [exampleDepositNote] [exampleWithdrawalBare] 5 examplePool =
     Some ([exampleDepositNote], 0)"
    using example_tail example_bare by simp
  from example_extended obtain chain' where
    e: "extendChainInPlace examplePrims [exampleDepositNote] [exampleWithdrawal1] 5 examplePool
          = Some (chain', 1)"
    by auto
  from extension_needs_commitment_and_amount[of _ _ _ examplePrims 5 examplePool _
      "[exampleWithdrawal1]" _ chain' 1] e
  have 2: "\<exists>cur w amt. tailNullifier examplePrims 5 examplePool [exampleDepositNote] = Some cur \<and>
      find (isWithdrawalOf (nullifierHash examplePrims cur)) [exampleWithdrawal1] = Some w \<and>
      act_newCommitment w \<noteq> None \<and> act_amount w = Some amt \<and> amt \<noteq> 0"
    by simp
  show ?thesis using 1 2 by blast
qed

subsection \<open>Pending deposits\<close>

lemma depositNoteOf_pending:
  assumes "act_amount a = None" and "act_label a = None"
  shows "amount (depositNoteOf a i pool) = Some ''0''"
    and "\<not> isActivated (depositNoteOf a i pool)"
    and "label (depositNoteOf a i pool) = ''Pending Deposit #'' @ toString i"
    and "status (depositNoteOf a i pool) = Unspent"
    and "changeIndex (depositNoteOf a i pool) = 0"
    and "depositIndex (depositNoteOf a i pool) = i"
  using assms by (simp_all add: depositNoteOf_def truthyBig_def orStr_def)

lemma js_BigInt_zero: "js_BigInt ''0'' = Some 0"
  by code_simp

text \<open>
  A pending deposit (amount and label null) gives a single-note chain that is not live
  when no later activity of the page is a withdrawal of its nullifier.
\<close>

lemma pending_deposit_single_note:
  assumes "act_amount a = None" and "act_label a = None"
    and "deriveDepositNullifier P (KeyBig k) pool i = Some dn"
    and "find (isWithdrawalOf (nullifierHash P dn)) after = None"
  shows "buildChainForDepositInPage P a i after k pool = Some [depositNoteOf a i pool]"
    and "liveAmount (depositNoteOf a i pool) = Some None"
proof -
  note f = depositNoteOf_pending[OF assms(1,2), of i pool]
  have t: "tailNullifier P k pool [depositNoteOf a i pool] = Some dn"
    using assms(3) f by (simp add: tailNullifier_def)
  have "extendChainInPlace P [depositNoteOf a i pool] after k pool =
      extendLoop P after k pool [depositNoteOf a i pool] 0
        (changeIndex (last [depositNoteOf a i pool]) + 1) dn 0"
    by (rule extendChainInPlace_init[OF _ _ js_BigInt_zero t]) (simp_all add: f)
  then show "buildChainForDepositInPage P a i after k pool = Some [depositNoteOf a i pool]"
    using extendLoop_stop[OF assms(4)] by (simp add: buildChainForDepositInPage_def)
  show "liveAmount (depositNoteOf a i pool) = Some None"
    using f by (simp add: liveAmount_def truthyStr_def BigIntOf_def js_BigInt_zero)
qed

text \<open>
  Claim C6 fails on the code: a pending deposit followed on its page by a withdrawal of
  its nullifier is extended. The deposit note is built with amount \<open>"0"\<close>, so the test
  of \<open>extendChainInPlace\<close> for a null amount does not skip it; the chain gets a second
  note, with a negative amount, and the pending note is marked spent.
\<close>

theorem pending_deposit_extended:
  "act_amount examplePending = None \<and> act_label examplePending = None \<and>
   map_option (\<lambda>r. map (map (\<lambda>n. (changeIndex n, amount n, status n, isActivated n, label n)))
                 (res_notes r))
     (discoverNotes examplePrims None pendingFetch exampleOptions examplePool 5) =
   Some [[(0, Some ''0'', Spent, False, ''Pending Deposit #0''),
          (1, Some ''-5'', Spent, True, ''Pending Deposit #0'')]]"
  by code_simp

subsection \<open>Errors of proof generation\<close>

lemma findIndex_None: "findIndex p xs = None \<longleftrightarrow> (\<forall>x\<in>set xs. \<not> p x)"
  by (induction xs) auto

lemma findIndex_Some:
  "findIndex p xs = Some i \<Longrightarrow> i < length xs \<and> p (xs ! i) \<and> (\<forall>j<i. \<not> p (xs ! j))"
proof (induction xs arbitrary: i)
  case Nil
  then show ?case by simp
next
  case (Cons x xs)
  show ?case
  proof (cases "p x")
    case True
    then show ?thesis using Cons.prems by simp
  next
    case False
    then obtain k where k: "findIndex p xs = Some k" "i = Suc k"
      using Cons.prems by auto
    from Cons.IH[OF k(1)] False k(2) show ?thesis
      by (auto simp: nth_Cons split: nat.splits)
  qed
qed


lemma indexOf_present:
  assumes "x \<in> set xs"
  shows "0 \<le> indexOf xs x" and "indexOf xs x < int (length xs)"
    and "xs ! nat (indexOf xs x) = x"
proof -
  from assms obtain i where i: "findIndex (\<lambda>y. y = x) xs = Some i"
    by (cases "findIndex (\<lambda>y. y = x) xs") (auto simp: findIndex_None)
  from findIndex_Some[OF i] i
  show "0 \<le> indexOf xs x" "indexOf xs x < int (length xs)" "xs ! nat (indexOf xs x) = x"
    by (simp_all add: indexOf_def)
qed

lemma provedInputs_simps:
  "provedInputs [] = []"
  "provedInputs [LoadCircuitFiles] = []"
  "provedInputs (xs @ ys) = provedInputs xs @ provedInputs ys"
  "provedInputs (FullProve ci # xs) = ci # provedInputs xs"
  "provedInputs (Verify ps # xs) = provedInputs xs"
  by (simp_all add: provedInputs_def)

lemma ensureCircuitFiles_events:
  "ensureCircuitFiles env gen = (r, evs, g) \<Longrightarrow> provedInputs evs = []"
  by (auto simp: ensureCircuitFiles_def provedInputs_simps split: option.splits)









lemma exampleEnv_files:
  "ensureCircuitFiles exampleEnv exampleGen =
     (Inr 1, [LoadCircuitFiles], exampleGen\<lparr>circuitFiles := Some 1\<rparr>)"
  "ensureCrossChainWithdrawalCircuitFiles exampleEnv exampleGen =
     (Inr 2, [LoadCircuitFiles], exampleGen\<lparr>crosschainCircuitFiles := Some 2\<rparr>)"
  by (simp_all add: ensureCircuitFiles_def ensureCrossChainWithdrawalCircuitFiles_def
        exampleEnv_def exampleGen_def)

lemma exampleArgs_sel:
  "arg_existingCommitmentHash exampleArgs = 108"
  "arg_label exampleArgs = 203"
  "arg_stateTreeCommitments exampleArgs = [101, 102, 103, 104, 105, 106, 107, 108, 109, 110]"
  "arg_aspTreeLabels exampleArgs = [201, 202, 203, 204]"
  "arg_existingCommitmentHash exampleArgsNoLabel = 108"
  "arg_label exampleArgsNoLabel = 203"
  "arg_stateTreeCommitments exampleArgsNoLabel = [101, 102, 103, 104, 105, 106, 107, 108, 109, 110]"
  "arg_aspTreeLabels exampleArgsNoLabel = [201, 202, 204]"
  "arg_existingCommitmentHash exampleArgsNeither = 108"
  "arg_label exampleArgsNeither = 203"
  "arg_stateTreeCommitments exampleArgsNeither = [101, 102]"
  "arg_aspTreeLabels exampleArgsNeither = [201, 202, 204]"
  "arg_existingCommitmentHash exampleCrossArgs = 108"
  "arg_label exampleCrossArgs = 203"
  "arg_stateTreeCommitments exampleCrossArgs = [101, 102]"
  "arg_aspTreeLabels exampleCrossArgs = [201, 202, 203, 204]"
  by (simp_all add: exampleArgs_def exampleArgsNoLabel_def exampleArgsNeither_def
        exampleCrossArgs_def)



subsection \<open>The trees of a proof\<close>

lemma padArray_short:
  "length arr \<le> len \<Longrightarrow> padArray arr len = arr @ replicate (len - length arr) 0"
  by (cases "length arr = len") (simp_all add: padArray_def)

lemma padArray_length: "length arr \<le> len \<Longrightarrow> length (padArray arr len) = len"
  by (simp add: padArray_short)

lemma ceilLog2_zero: "ceilLog2 n = 0 \<Longrightarrow> n \<le> 1"
  by (subst (asm) ceilLog2.simps) (simp split: if_splits)

lemma insertLoop_shape:
  "t \<noteq> [] \<Longrightarrow>
     insertLoop h t node i \<noteq> [] \<and> length (insertLoop h t node i) = length t \<and>
     (\<exists>r. last (insertLoop h t node i) = [r])"
proof (induction h t node i rule: insertLoop.induct)
  case (1 h node index)
  then show ?case by simp
next
  case (2 h rootLevel node index)
  then show ?case by simp
next
  case (3 h lvl v va node index)
  from "3.IH"[OF refl refl] show ?case by (simp add: Let_def)
qed

lemma insertLoop_hd:
  "insertLoop h (lvl # l2 # rest) node i =
     setAt lvl i node # insertLoop h (l2 # rest)
       (if odd i then h (setAt lvl i node ! (i - 1)) node else node) (i div 2)"
  by (simp add: Let_def)

lemma imtInsert_shape:
  assumes "t \<noteq> []"
  shows "imtInsert h t leaf \<noteq> []"
    and "imtSize (imtInsert h t leaf) = imtSize t + 1"
    and "\<exists>r. last (imtInsert h t leaf) = [r]"
proof -
  define t1 where "t1 = (if imtDepth t < ceilLog2 (imtSize t + 1) then t @ [[]] else t)"
  have ins: "imtInsert h t leaf = insertLoop h t1 leaf (imtSize t)"
    by (simp add: imtInsert_def t1_def)
  have ne: "t1 \<noteq> []" using assms by (simp add: t1_def)
  from insertLoop_shape[OF ne, of h leaf "imtSize t"]
  show "imtInsert h t leaf \<noteq> []" "\<exists>r. last (imtInsert h t leaf) = [r]"
    using ne by (auto simp: ins)
  obtain lvl rest where t: "t = lvl # rest" using assms by (cases t) auto
  show "imtSize (imtInsert h t leaf) = imtSize t + 1"
  proof (cases "length t1 = 1")
    case True
    then have same: "t1 = t" and r: "rest = []"
      using t by (auto simp: t1_def split: if_splits)
    then have "\<not> imtDepth t < ceilLog2 (imtSize t + 1)"
      using t by (auto simp: t1_def split: if_splits)
    then have "ceilLog2 (imtSize t + 1) = 0" using t r by (simp add: imtDepth_def)
    from ceilLog2_zero[OF this] have z: "imtSize t = 0" by simp
    have "insertLoop h t1 leaf (imtSize t) = [[leaf]]"
      unfolding same t r by simp
    then show ?thesis unfolding ins z by (simp add: imtSize_def)
  next
    case False
    then obtain l2 rest2 where t1: "t1 = lvl # l2 # rest2"
      using t ne by (cases t1; cases "tl t1") (auto simp: t1_def split: if_splits)
    have sz: "imtSize t = length lvl" by (simp add: t imtSize_def)
    have "imtSize (insertLoop h t1 leaf (imtSize t)) = length lvl + 1"
      unfolding t1 sz by (simp add: imtSize_def setAt_def Let_def)
    then show ?thesis unfolding ins sz by simp
  qed
qed

lemma foldl_imtInsert_shape:
  "t \<noteq> [] \<Longrightarrow>
     foldl (imtInsert h) t xs \<noteq> [] \<and>
     imtSize (foldl (imtInsert h) t xs) = imtSize t + length xs \<and>
     (xs \<noteq> [] \<longrightarrow> (\<exists>r. last (foldl (imtInsert h) t xs) = [r]))"
proof (induction xs rule: rev_induct)
  case Nil
  then show ?case by simp
next
  case (snoc x xs)
  then have ne: "foldl (imtInsert h) t xs \<noteq> []"
    and sz: "imtSize (foldl (imtInsert h) t xs) = imtSize t + length xs" by simp_all
  from imtInsert_shape[OF ne, of h x] sz show ?case by simp
qed

lemma tree_shape:
  "foldl (imtInsert h) imtEmpty xs \<noteq> []"
  "imtSize (foldl (imtInsert h) imtEmpty xs) = length xs"
  "xs \<noteq> [] \<Longrightarrow> \<exists>r. imtRoot (foldl (imtInsert h) imtEmpty xs) = Some r"
proof -
  have ne: "imtEmpty \<noteq> []" by (simp add: imtEmpty_def)
  from foldl_imtInsert_shape[OF ne, of h xs]
  show "foldl (imtInsert h) imtEmpty xs \<noteq> []"
    "imtSize (foldl (imtInsert h) imtEmpty xs) = length xs"
    by (simp_all add: imtEmpty_def imtSize_def)
  assume "xs \<noteq> []"
  with foldl_imtInsert_shape[OF ne, of h xs]
  show "\<exists>r. imtRoot (foldl (imtInsert h) imtEmpty xs) = Some r"
    by (auto simp: imtRoot_def)
qed

lemma setAt_nonneg:
  "list_all ((\<le>) 0) lvl \<Longrightarrow> (0::int) \<le> v \<Longrightarrow> list_all ((\<le>) 0) (setAt lvl i v)"
  by (auto simp: setAt_def list_all_iff dest: set_update_subset_insert[THEN subsetD])

lemma insertLoop_nonneg:
  "\<forall>a b. 0 \<le> h a b \<Longrightarrow> 0 \<le> node \<Longrightarrow> list_all (list_all ((\<le>) 0)) t \<Longrightarrow>
     list_all (list_all ((\<le>) 0)) (insertLoop h t node i)"
proof (induction h t node i rule: insertLoop.induct)
  case (1 h node index)
  then show ?case by simp
next
  case (2 h rootLevel node index)
  then show ?case by simp
next
  case (3 h lvl v va node index)
  have n1: "0 \<le> (if odd index then h (setAt lvl index node ! (index - 1)) node else node)"
    using "3.prems"(1,2) by simp
  have l1: "list_all ((\<le>) 0) (setAt lvl index node)"
    using "3.prems"(2,3) by (simp add: setAt_nonneg)
  have r: "list_all (list_all ((\<le>) 0)) (v # va)" using "3.prems"(3) by simp
  from "3.IH"[OF refl refl "3.prems"(1) n1 r] l1 show ?case by (simp add: Let_def)
qed

lemma imtInsert_nonneg:
  assumes "\<forall>a b. 0 \<le> h a b" "0 \<le> leaf" "list_all (list_all ((\<le>) 0)) t"
  shows "list_all (list_all ((\<le>) 0)) (imtInsert h t leaf)"
proof -
  have "list_all (list_all ((\<le>) 0))
          (if imtDepth t < ceilLog2 (imtSize t + 1) then t @ [[]] else t)"
    using assms(3) by simp
  from insertLoop_nonneg[OF assms(1,2) this] show ?thesis by (simp add: imtInsert_def)
qed

lemma foldl_imtInsert_nonneg:
  "\<forall>a b. 0 \<le> h a b \<Longrightarrow> list_all ((\<le>) 0) xs \<Longrightarrow> list_all (list_all ((\<le>) 0)) t \<Longrightarrow>
     list_all (list_all ((\<le>) 0)) (foldl (imtInsert h) t xs)"
  by (induction xs arbitrary: t) (simp_all add: imtInsert_nonneg)

lemma tree_nonneg:
  "\<forall>a b. 0 \<le> h a b \<Longrightarrow> list_all ((\<le>) 0) xs \<Longrightarrow>
     list_all (list_all ((\<le>) 0)) (foldl (imtInsert h) imtEmpty xs)"
  by (rule foldl_imtInsert_nonneg) (simp_all add: imtEmpty_def)

lemma proofLoop_nonneg:
  "list_all (list_all ((\<le>) 0)) t \<Longrightarrow> list_all ((\<le>) 0) (snd (proofLoop t i))"
proof (induction t i rule: proofLoop.induct)
  case (1 index)
  then show ?case by simp
next
  case (2 rootLevel index)
  then show ?case by simp
next
  case (3 lvl v va index)
  have r: "list_all (list_all ((\<le>) 0)) (v # va)" using "3.prems" by simp
  have "list_all ((\<le>) 0) lvl" using "3.prems" by simp
  then have l: "\<And>j. j < length lvl \<Longrightarrow> 0 \<le> lvl ! j"
    by (simp add: list_all_length)
  from "3.IH"[OF refl refl r] l show ?case
    by (auto simp: Let_def split: prod.splits)
qed

lemma imtRoot_nonneg:
  "list_all (list_all ((\<le>) 0)) t \<Longrightarrow> imtRoot t = Some r \<Longrightarrow> 0 \<le> r"
proof -
  assume a: "list_all (list_all ((\<le>) 0)) t" and r: "imtRoot t = Some r"
  from r have ne: "t \<noteq> []" and "\<exists>rest. last t = r # rest"
    by (auto simp: imtRoot_def split: if_splits list.splits)
  then obtain rest where l: "last t = r # rest" by blast
  have "last t \<in> set t" using ne by simp
  with a have "list_all ((\<le>) 0) (last t)" by (simp add: list_all_iff)
  then show "0 \<le> r" by (simp add: l)
qed

lemma generateProof_Some:
  assumes "0 \<le> i" "i < int (imtSize t)"
  shows "generateProof t i =
           Some \<lparr> pf_root = imtRoot t, pf_leaf = hd t ! nat i,
                  pf_index = pathIndex (fst (proofLoop t (nat i))),
                  pf_siblings = snd (proofLoop t (nat i)) \<rparr>"
  using assms by (simp add: generateProof_def split: prod.splits)

lemma dec_chars_toString: "0 \<le> x \<Longrightarrow> dec_chars (toString x)"
  by (simp add: toString_def toStringRadix_def dec_chars_radix_digits)

lemma ceilLog2_values:
  "ceilLog2 1 = 0" "ceilLog2 2 = 1" "ceilLog2 3 = 2" "ceilLog2 4 = 2" "ceilLog2 5 = 3"
  "ceilLog2 6 = 3" "ceilLog2 7 = 3" "ceilLog2 8 = 3" "ceilLog2 9 = 4" "ceilLog2 10 = 4"
  by (simp_all add: ceilLog2.simps)

lemma ceilLog2_Suc_values:
  "ceilLog2 (Suc 0) = 0"
  "ceilLog2 (Suc (Suc 0)) = Suc 0"
  "ceilLog2 (Suc (Suc (Suc 0))) = Suc (Suc 0)"
  "ceilLog2 (Suc (Suc (Suc (Suc 0)))) = Suc (Suc 0)"
  "ceilLog2 (Suc (Suc (Suc (Suc (Suc 0))))) = Suc (Suc (Suc 0))"
  "ceilLog2 (Suc (Suc (Suc (Suc (Suc (Suc 0)))))) = Suc (Suc (Suc 0))"
  "ceilLog2 (Suc (Suc (Suc (Suc (Suc (Suc (Suc 0))))))) = Suc (Suc (Suc 0))"
  "ceilLog2 (Suc (Suc (Suc (Suc (Suc (Suc (Suc (Suc 0)))))))) = Suc (Suc (Suc 0))"
  "ceilLog2 (Suc (Suc (Suc (Suc (Suc (Suc (Suc (Suc (Suc 0))))))))) = Suc (Suc (Suc (Suc 0)))"
  "ceilLog2 (Suc (Suc (Suc (Suc (Suc (Suc (Suc (Suc (Suc (Suc 0)))))))))) = Suc (Suc (Suc (Suc 0)))"
  using ceilLog2_values by (simp_all add: numeral_eq_Suc)

lemma list_of_length_4:
  "length xs = 4 \<Longrightarrow> \<exists>a b c d. xs = [a, b, c, d]"
  by (auto simp: numeral_eq_Suc length_Suc_conv)

lemma list_of_length_10:
  "length xs = 10 \<Longrightarrow> \<exists>a b c d e f g i j k. xs = [a, b, c, d, e, f, g, i, j, k]"
  by (auto simp: numeral_eq_Suc length_Suc_conv)

lemma imtInsert_step:
  "imtInsert h (lvl # rest) leaf =
     insertLoop h (if length rest < ceilLog2 (length lvl + 1) then (lvl # rest) @ [[]] else lvl # rest)
       leaf (length lvl)"
  by (simp add: imtInsert_def imtDepth_def imtSize_def)

lemma tree_of_4:
  "foldl (imtInsert h) imtEmpty [a, b, c, d] =
     [[a, b, c, d], [h a b, h c d], [h (h a b) (h c d)]]"
  by (simp add: imtEmpty_def imtInsert_step ceilLog2_Suc_values setAt_def Let_def)

lemma tree_of_10:
  "foldl (imtInsert h) imtEmpty [a, b, c, d, e, f, g, i, j, k] =
     [[a, b, c, d, e, f, g, i, j, k],
      [h a b, h c d, h e f, h g i, h j k],
      [h (h a b) (h c d), h (h e f) (h g i), h j k],
      [h (h (h a b) (h c d)) (h (h e f) (h g i)), h j k],
      [h (h (h (h a b) (h c d)) (h (h e f) (h g i))) (h j k)]]"
  by (simp add: imtEmpty_def imtInsert_step ceilLog2_Suc_values setAt_def Let_def)

lemma proof_of_10_at_7:
  "proofLoop (foldl (imtInsert h) imtEmpty [a, b, c, d, e, f, g, i, j, k]) 7 =
     ([True, True, True, False], [g, h e f, h (h a b) (h c d), h j k])"
  unfolding tree_of_10 by (simp add: Let_def)

lemma proof_of_4_at_2:
  "proofLoop (foldl (imtInsert h) imtEmpty [a, b, c, d]) 2 = ([False, True], [d, h a b])"
  unfolding tree_of_4 by (simp add: Let_def)

lemma pathIndex_values:
  "pathIndex [True, True, True, False] = Some 7"
  "pathIndex [False, True] = Some 2"
  by (simp_all add: pathIndex_def)

lemma padArray_nonneg: "list_all ((\<le>) 0) arr \<Longrightarrow> list_all ((\<le>) 0) (padArray arr len)"
  by (simp add: padArray_def list_all_iff)

lemma list_all_dec_chars:
  "list_all ((\<le>) 0) xs \<Longrightarrow> list_all dec_chars (map toString xs)"
  by (induction xs) (simp_all add: dec_chars_toString)

lemma verifyWithdrawalProof_events:
  "verifyWithdrawalProof env g pd = (b, evs, g') \<Longrightarrow> provedInputs evs = []"
  by (auto simp: verifyWithdrawalProof_def provedInputs_simps
        split: prod.splits sum.splits option.splits
        dest: ensureCircuitFiles_events)

lemma prepareCircuitInputs_fields:
  assumes "pf_root (in_stateProof p) = Some sr" and "pf_root (in_aspProof p) = Some ar"
  shows "\<exists>ci. prepareCircuitInputs p = Some ci \<and>
           fieldOf ''stateTreeDepth'' ci = Some (SigString (toString (int (in_stateTreeDepth p)))) \<and>
           fieldOf ''ASPTreeDepth'' ci = Some (SigString (toString (int (in_ASPTreeDepth p)))) \<and>
           fieldOf ''stateSiblings'' ci =
             Some (SigStrings (map toString (padArray (pf_siblings (in_stateProof p)) 32))) \<and>
           fieldOf ''ASPSiblings'' ci =
             Some (SigStrings (map toString (padArray (pf_siblings (in_aspProof p)) 32))) \<and>
           fieldOf ''stateIndex'' ci = Some (SigNumber (in_stateIndex p)) \<and>
           fieldOf ''ASPIndex'' ci = Some (SigNumber (in_aspIndex p)) \<and>
           (0 \<le> in_withdrawalValue p \<and> 0 \<le> in_existingValue p \<and>
            0 \<le> in_existingNullifier p \<and> 0 \<le> in_existingSecret p \<and>
            0 \<le> in_context p \<and> 0 \<le> in_label p \<and> 0 \<le> in_newNullifier p \<and>
            0 \<le> in_newSecret p \<and> 0 \<le> sr \<and> 0 \<le> ar \<and>
            list_all ((\<le>) 0) (pf_siblings (in_stateProof p)) \<and>
            list_all ((\<le>) 0) (pf_siblings (in_aspProof p))
            \<longrightarrow> decimalExceptIndices ci)"
  using assms
  by (simp add: prepareCircuitInputs_def fieldOf_def MAX_TREE_DEPTH_def decimalExceptIndices_def
        decimalSignal_def dec_chars_toString list_all_dec_chars padArray_nonneg)

lemma fieldOf_number_not_decimal:
  "fieldOf name ci = Some (SigNumber n) \<Longrightarrow> \<not> allDecimalStrings ci"
proof
  assume f: "fieldOf name ci = Some (SigNumber n)" and a: "allDecimalStrings ci"
  from f have "(name, SigNumber n) \<in> set ci" by (simp add: fieldOf_def map_of_SomeD)
  with a have "decimalSignal (SigNumber n)" by (auto simp: allDecimalStrings_def list_all_iff)
  then show False by (simp add: decimalSignal_def)
qed

lemma toString_digit:
  "toString 4 = ''4''" "toString 2 = ''2''"
  by code_simp+

lemma toString_small:
  "toString (int 4) = ''4''" "toString (int 2) = ''2''"
  using toString_digit by simp_all

lemma depth_of_10:
  "length xs = 10 \<Longrightarrow> imtDepth (foldl (imtInsert h) imtEmpty xs) = 4"
proof -
  assume "length xs = 10"
  from list_of_length_10[OF this] obtain a b c d e f g i j k
    where xs: "xs = [a, b, c, d, e, f, g, i, j, k]" by blast
  show ?thesis unfolding xs tree_of_10 by (simp add: imtDepth_def)
qed

lemma depth_of_4:
  "length xs = 4 \<Longrightarrow> imtDepth (foldl (imtInsert h) imtEmpty xs) = 2"
proof -
  assume "length xs = 4"
  from list_of_length_4[OF this] obtain a b c d where xs: "xs = [a, b, c, d]" by blast
  show ?thesis unfolding xs tree_of_4 by (simp add: imtDepth_def)
qed

lemma path_of_10_at_7:
  "length xs = 10 \<Longrightarrow>
     pathIndex (fst (proofLoop (foldl (imtInsert h) imtEmpty xs) 7)) = Some 7 \<and>
     length (snd (proofLoop (foldl (imtInsert h) imtEmpty xs) 7)) = 4"
proof -
  assume "length xs = 10"
  from list_of_length_10[OF this] obtain a b c d e f g i j k
    where xs: "xs = [a, b, c, d, e, f, g, i, j, k]" by blast
  show ?thesis unfolding xs proof_of_10_at_7 by (simp add: pathIndex_values)
qed

lemma path_of_4_at_2:
  "length xs = 4 \<Longrightarrow>
     pathIndex (fst (proofLoop (foldl (imtInsert h) imtEmpty xs) 2)) = Some 2 \<and>
     length (snd (proofLoop (foldl (imtInsert h) imtEmpty xs) 2)) = 2"
proof -
  assume "length xs = 4"
  from list_of_length_4[OF this] obtain a b c d where xs: "xs = [a, b, c, d]" by blast
  show ?thesis unfolding xs proof_of_4_at_2 by (simp add: pathIndex_values)
qed

lemma withdrawal_inputs:
  assumes files: "ensureCircuitFiles env gen = (Inr cf, evs0, gen1)"
      and c: "arg_existingCommitmentHash args \<in> set (arg_stateTreeCommitments args)"
      and l: "arg_label args \<in> set (arg_aspTreeLabels args)"
  shows "\<exists>stateTree aspTree sp ap ci.
      buildMerkleTrees P (arg_stateTreeCommitments args) (arg_aspTreeLabels args) = (stateTree, aspTree) \<and>
      generateProof stateTree
        (indexOf (arg_stateTreeCommitments args) (arg_existingCommitmentHash args)) = Some sp \<and>
      generateProof aspTree (indexOf (arg_aspTreeLabels args) (arg_label args)) = Some ap \<and>
      provedInputs (fst (snd (generateWithdrawalProof P env gen args))) = [ci] \<and>
      (length (pf_siblings sp) \<le> 32 \<longrightarrow>
         fieldOf ''stateSiblings'' ci =
           Some (SigStrings (map toString
                  (pf_siblings sp @ replicate (32 - length (pf_siblings sp)) 0))) \<and>
         length (map toString (pf_siblings sp @ replicate (32 - length (pf_siblings sp)) 0)) = 32) \<and>
      (length (pf_siblings ap) \<le> 32 \<longrightarrow>
         fieldOf ''ASPSiblings'' ci =
           Some (SigStrings (map toString
                  (pf_siblings ap @ replicate (32 - length (pf_siblings ap)) 0))) \<and>
         length (map toString (pf_siblings ap @ replicate (32 - length (pf_siblings ap)) 0)) = 32) \<and>
      fieldOf ''stateTreeDepth'' ci = Some (SigString (toString (int (imtDepth stateTree)))) \<and>
      fieldOf ''ASPTreeDepth'' ci = Some (SigString (toString (int (imtDepth aspTree)))) \<and>
      fieldOf ''stateIndex'' ci = Some (SigNumber (nanToZero (pf_index sp))) \<and>
      fieldOf ''ASPIndex'' ci = Some (SigNumber (nanToZero (pf_index ap))) \<and>
      (length (arg_stateTreeCommitments args) = 10 \<and>
       indexOf (arg_stateTreeCommitments args) (arg_existingCommitmentHash args) = 7 \<and>
       length (arg_aspTreeLabels args) = 4 \<and>
       indexOf (arg_aspTreeLabels args) (arg_label args) = 2 \<longrightarrow>
         fieldOf ''stateTreeDepth'' ci = Some (SigString ''4'') \<and>
         fieldOf ''ASPTreeDepth'' ci = Some (SigString ''2'') \<and>
         fieldOf ''stateIndex'' ci = Some (SigNumber 7) \<and>
         fieldOf ''ASPIndex'' ci = Some (SigNumber 2) \<and>
         length (pf_siblings sp) = 4 \<and> length (pf_siblings ap) = 2) \<and>
      (nonNegativeArgs args \<and> (\<forall>a b. 0 \<le> poseidon2 P a b) \<longrightarrow> decimalExceptIndices ci)"
proof -
  let ?cs = "arg_stateTreeCommitments args" and ?c = "arg_existingCommitmentHash args"
  let ?ls = "arg_aspTreeLabels args" and ?l = "arg_label args"
  define st where "st = foldl (imtInsert (poseidon2 P)) imtEmpty ?cs"
  define at where "at = foldl (imtInsert (poseidon2 P)) imtEmpty ?ls"
  define si where "si = indexOf ?cs ?c"
  define ai where "ai = indexOf ?ls ?l"
  have bt: "buildMerkleTrees P ?cs ?ls = (st, at)"
    by (simp add: buildMerkleTrees_def st_def at_def)
  have si: "0 \<le> si" "si < int (imtSize st)" "si \<noteq> - 1"
    using indexOf_present[OF c] by (simp_all add: st_def si_def tree_shape)
  have ai: "0 \<le> ai" "ai < int (imtSize at)" "ai \<noteq> - 1"
    using indexOf_present[OF l] by (simp_all add: at_def ai_def tree_shape)
  define sp where "sp = \<lparr> pf_root = imtRoot st, pf_leaf = hd st ! nat si,
                  pf_index = pathIndex (fst (proofLoop st (nat si))),
                  pf_siblings = snd (proofLoop st (nat si)) \<rparr>"
  define ap where "ap = \<lparr> pf_root = imtRoot at, pf_leaf = hd at ! nat ai,
                  pf_index = pathIndex (fst (proofLoop at (nat ai))),
                  pf_siblings = snd (proofLoop at (nat ai)) \<rparr>"
  have gsp: "generateProof st si = Some sp"
    unfolding sp_def by (rule generateProof_Some[OF si(1,2)])
  have gap: "generateProof at ai = Some ap"
    unfolding ap_def by (rule generateProof_Some[OF ai(1,2)])
  have "?cs \<noteq> []" "?ls \<noteq> []" using c l by auto
  then obtain sr ar where sr: "imtRoot st = Some sr" and ar: "imtRoot at = Some ar"
    using tree_shape(3)[of ?cs "poseidon2 P"] tree_shape(3)[of ?ls "poseidon2 P"]
    by (auto simp: st_def at_def)
  define params where "params =
     \<lparr> in_withdrawalValue = arg_withdrawalValue args,
       in_existingValue = arg_existingValue args,
       in_existingNullifier = arg_existingNullifier args,
       in_existingSecret = arg_existingSecret args,
       in_context = arg_context args,
       in_label = arg_label args,
       in_newNullifier = arg_newNullifier args,
       in_newSecret = arg_newSecret args,
       in_stateProof = sp,
       in_aspProof = ap,
       in_stateTreeDepth = imtDepth st,
       in_ASPTreeDepth = imtDepth at,
       in_stateIndex = nanToZero (pf_index sp),
       in_aspIndex = nanToZero (pf_index ap) \<rparr>"
  have roots: "pf_root (in_stateProof params) = Some sr" "pf_root (in_aspProof params) = Some ar"
    by (simp_all add: params_def sp_def ap_def sr ar)
  from prepareCircuitInputs_fields[OF roots] obtain ci where
    ci: "prepareCircuitInputs params = Some ci"
    and depth: "fieldOf ''stateTreeDepth'' ci = Some (SigString (toString (int (imtDepth st))))"
      "fieldOf ''ASPTreeDepth'' ci = Some (SigString (toString (int (imtDepth at))))"
    and sibs: "fieldOf ''stateSiblings'' ci =
             Some (SigStrings (map toString (padArray (pf_siblings sp) 32)))"
      "fieldOf ''ASPSiblings'' ci =
             Some (SigStrings (map toString (padArray (pf_siblings ap) 32)))"
    and idx: "fieldOf ''stateIndex'' ci = Some (SigNumber (nanToZero (pf_index sp)))"
      "fieldOf ''ASPIndex'' ci = Some (SigNumber (nanToZero (pf_index ap)))"
    and dec: "0 \<le> in_withdrawalValue params \<and> 0 \<le> in_existingValue params \<and>
            0 \<le> in_existingNullifier params \<and> 0 \<le> in_existingSecret params \<and>
            0 \<le> in_context params \<and> 0 \<le> in_label params \<and> 0 \<le> in_newNullifier params \<and>
            0 \<le> in_newSecret params \<and> 0 \<le> sr \<and> 0 \<le> ar \<and>
            list_all ((\<le>) 0) (pf_siblings (in_stateProof params)) \<and>
            list_all ((\<le>) 0) (pf_siblings (in_aspProof params))
            \<longrightarrow> decimalExceptIndices ci"
    by (auto simp: params_def)
  have run: "provedInputs (fst (snd (generateWithdrawalProof P env gen args))) = [ci]"
    using ensureCircuitFiles_events[OF files] si(3) ai(3)
    by (auto simp: generateWithdrawalProof_def files bt Let_def si_def[symmetric]
          ai_def[symmetric] gsp gap params_def[symmetric] ci provedInputs_simps
          split: option.splits prod.splits dest: verifyWithdrawalProof_events)
  have sib1: "length (pf_siblings sp) \<le> 32 \<longrightarrow>
         fieldOf ''stateSiblings'' ci =
           Some (SigStrings (map toString
                  (pf_siblings sp @ replicate (32 - length (pf_siblings sp)) 0))) \<and>
         length (map toString (pf_siblings sp @ replicate (32 - length (pf_siblings sp)) 0)) = 32"
    by (simp add: sibs padArray_short)
  have sib2: "length (pf_siblings ap) \<le> 32 \<longrightarrow>
         fieldOf ''ASPSiblings'' ci =
           Some (SigStrings (map toString
                  (pf_siblings ap @ replicate (32 - length (pf_siblings ap)) 0))) \<and>
         length (map toString (pf_siblings ap @ replicate (32 - length (pf_siblings ap)) 0)) = 32"
    by (simp add: sibs padArray_short)
  have scen: "length ?cs = 10 \<and> si = 7 \<and> length ?ls = 4 \<and> ai = 2 \<longrightarrow>
         fieldOf ''stateTreeDepth'' ci = Some (SigString ''4'') \<and>
         fieldOf ''ASPTreeDepth'' ci = Some (SigString ''2'') \<and>
         fieldOf ''stateIndex'' ci = Some (SigNumber 7) \<and>
         fieldOf ''ASPIndex'' ci = Some (SigNumber 2) \<and>
         length (pf_siblings sp) = 4 \<and> length (pf_siblings ap) = 2"
  proof
    assume a: "length ?cs = 10 \<and> si = 7 \<and> length ?ls = 4 \<and> ai = 2"
    then have n: "nat si = 7" "nat ai = 2" by simp_all
    have d: "imtDepth st = 4" "imtDepth at = 2"
      using a by (simp_all add: st_def at_def depth_of_10 depth_of_4)
    have p1: "pf_index sp = Some 7" "length (pf_siblings sp) = 4"
      using a path_of_10_at_7[of ?cs "poseidon2 P"] by (simp_all add: sp_def n st_def)
    have p2: "pf_index ap = Some 2" "length (pf_siblings ap) = 2"
      using a path_of_4_at_2[of ?ls "poseidon2 P"] by (simp_all add: ap_def n at_def)
    show "fieldOf ''stateTreeDepth'' ci = Some (SigString ''4'') \<and>
         fieldOf ''ASPTreeDepth'' ci = Some (SigString ''2'') \<and>
         fieldOf ''stateIndex'' ci = Some (SigNumber 7) \<and>
         fieldOf ''ASPIndex'' ci = Some (SigNumber 2) \<and>
         length (pf_siblings sp) = 4 \<and> length (pf_siblings ap) = 2"
      using toString_small
      by (simp add: depth idx d p1 p2 nanToZero_def)
  qed
  have decimal: "nonNegativeArgs args \<and> (\<forall>a b. 0 \<le> poseidon2 P a b) \<longrightarrow> decimalExceptIndices ci"
  proof
    assume a: "nonNegativeArgs args \<and> (\<forall>a b. 0 \<le> poseidon2 P a b)"
    then have h: "\<forall>a b. 0 \<le> poseidon2 P a b" by simp
    have cs: "list_all ((\<le>) 0) ?cs" "list_all ((\<le>) 0) ?ls"
      using a by (simp_all add: nonNegativeArgs_def)
    have t: "list_all (list_all ((\<le>) 0)) st" "list_all (list_all ((\<le>) 0)) at"
      unfolding st_def at_def by (rule tree_nonneg[OF h cs(1)], rule tree_nonneg[OF h cs(2)])
    have r: "0 \<le> sr" "0 \<le> ar"
      using imtRoot_nonneg[OF t(1) sr] imtRoot_nonneg[OF t(2) ar] by simp_all
    have s: "list_all ((\<le>) 0) (pf_siblings (in_stateProof params))"
      "list_all ((\<le>) 0) (pf_siblings (in_aspProof params))"
      using proofLoop_nonneg[OF t(1), of "nat si"] proofLoop_nonneg[OF t(2), of "nat ai"]
      by (simp_all add: params_def sp_def ap_def)
    have v: "0 \<le> in_withdrawalValue params \<and> 0 \<le> in_existingValue params \<and>
            0 \<le> in_existingNullifier params \<and> 0 \<le> in_existingSecret params \<and>
            0 \<le> in_context params \<and> 0 \<le> in_label params \<and> 0 \<le> in_newNullifier params \<and>
            0 \<le> in_newSecret params"
      using a by (simp add: nonNegativeArgs_def params_def)
    from dec v r s show "decimalExceptIndices ci" by blast
  qed
  show ?thesis
    using bt gsp gap run sib1 sib2 depth idx scen decimal
    unfolding si_def ai_def by blast
qed

text \<open>
  Claim C8, amended. When the circuit files are available and the commitment and the
  label occur in their lists, \<open>generateWithdrawalProof\<close> hands the prover exactly one
  input record. With \<open>sp\<close> and \<open>ap\<close> the Lean-IMT proofs of the commitment and of the
  label at their first positions: when a proof has at most 32 siblings, \<open>stateSiblings\<close>
  (\<open>ASPSiblings\<close>) is the decimal strings of these siblings followed by zeros, 32 in
  all; \<open>stateTreeDepth\<close> and \<open>ASPTreeDepth\<close> are the decimal strings of the depths of
  the two trees; \<open>stateIndex\<close> and \<open>ASPIndex\<close> are the indices of the two proofs, as
  numbers and not as strings. For 10 state leaves with the commitment at index 7 and 4
  labels with the label at index 2 the record has \<open>stateTreeDepth = "4"\<close>,
  \<open>ASPTreeDepth = "2"\<close>, \<open>stateIndex = 7\<close>, \<open>ASPIndex = 2\<close>, and the proofs have 4 and 2
  siblings. When no argument, leaf or hash value is negative, every field other than
  \<open>stateIndex\<close> and \<open>ASPIndex\<close> is a decimal string or an array of decimal strings.
\<close>

theorem circuit_inputs_padding:
  assumes "ensureCircuitFiles env gen = (Inr cf, evs0, gen1)"
      and "arg_existingCommitmentHash args \<in> set (arg_stateTreeCommitments args)"
      and "arg_label args \<in> set (arg_aspTreeLabels args)"
  shows "\<exists>stateTree aspTree sp ap ci.
      buildMerkleTrees P (arg_stateTreeCommitments args) (arg_aspTreeLabels args) = (stateTree, aspTree) \<and>
      generateProof stateTree
        (indexOf (arg_stateTreeCommitments args) (arg_existingCommitmentHash args)) = Some sp \<and>
      generateProof aspTree (indexOf (arg_aspTreeLabels args) (arg_label args)) = Some ap \<and>
      provedInputs (fst (snd (generateWithdrawalProof P env gen args))) = [ci] \<and>
      (length (pf_siblings sp) \<le> 32 \<longrightarrow>
         fieldOf ''stateSiblings'' ci =
           Some (SigStrings (map toString
                  (pf_siblings sp @ replicate (32 - length (pf_siblings sp)) 0))) \<and>
         length (map toString (pf_siblings sp @ replicate (32 - length (pf_siblings sp)) 0)) = 32) \<and>
      (length (pf_siblings ap) \<le> 32 \<longrightarrow>
         fieldOf ''ASPSiblings'' ci =
           Some (SigStrings (map toString
                  (pf_siblings ap @ replicate (32 - length (pf_siblings ap)) 0))) \<and>
         length (map toString (pf_siblings ap @ replicate (32 - length (pf_siblings ap)) 0)) = 32) \<and>
      fieldOf ''stateTreeDepth'' ci = Some (SigString (toString (int (imtDepth stateTree)))) \<and>
      fieldOf ''ASPTreeDepth'' ci = Some (SigString (toString (int (imtDepth aspTree)))) \<and>
      fieldOf ''stateIndex'' ci = Some (SigNumber (nanToZero (pf_index sp))) \<and>
      fieldOf ''ASPIndex'' ci = Some (SigNumber (nanToZero (pf_index ap))) \<and>
      (length (arg_stateTreeCommitments args) = 10 \<and>
       indexOf (arg_stateTreeCommitments args) (arg_existingCommitmentHash args) = 7 \<and>
       length (arg_aspTreeLabels args) = 4 \<and>
       indexOf (arg_aspTreeLabels args) (arg_label args) = 2 \<longrightarrow>
         fieldOf ''stateTreeDepth'' ci = Some (SigString ''4'') \<and>
         fieldOf ''ASPTreeDepth'' ci = Some (SigString ''2'') \<and>
         fieldOf ''stateIndex'' ci = Some (SigNumber 7) \<and>
         fieldOf ''ASPIndex'' ci = Some (SigNumber 2) \<and>
         length (pf_siblings sp) = 4 \<and> length (pf_siblings ap) = 2) \<and>
      (nonNegativeArgs args \<and> (\<forall>a b. 0 \<le> poseidon2 P a b) \<longrightarrow> decimalExceptIndices ci)"
  by (rule withdrawal_inputs[OF assms])

lemma exampleArgs_scenario:
  "arg_existingCommitmentHash exampleArgs \<in> set (arg_stateTreeCommitments exampleArgs)"
  "arg_label exampleArgs \<in> set (arg_aspTreeLabels exampleArgs)"
  "length (arg_stateTreeCommitments exampleArgs) = 10"
  "indexOf (arg_stateTreeCommitments exampleArgs) (arg_existingCommitmentHash exampleArgs) = 7"
  "length (arg_aspTreeLabels exampleArgs) = 4"
  "indexOf (arg_aspTreeLabels exampleArgs) (arg_label exampleArgs) = 2"
  "nonNegativeArgs exampleArgs"
  "\<forall>a b. 0 \<le> poseidon2 examplePrims a b"
  by (simp_all add: exampleArgs_sel indexOf_def nonNegativeArgs_def exampleArgs_def examplePrims_def)

theorem circuit_inputs_padding_witness:
  "\<exists>ci ss ts.
     provedInputs (fst (snd (generateWithdrawalProof examplePrims exampleEnv exampleGen exampleArgs)))
       = [ci] \<and>
     fieldOf ''stateTreeDepth'' ci = Some (SigString ''4'') \<and>
     fieldOf ''ASPTreeDepth'' ci = Some (SigString ''2'') \<and>
     fieldOf ''stateIndex'' ci = Some (SigNumber 7) \<and>
     fieldOf ''ASPIndex'' ci = Some (SigNumber 2) \<and>
     fieldOf ''stateSiblings'' ci = Some (SigStrings ss) \<and> length ss = 32 \<and>
     fieldOf ''ASPSiblings'' ci = Some (SigStrings ts) \<and> length ts = 32 \<and>
     decimalExceptIndices ci"
proof -
  from circuit_inputs_padding[OF exampleEnv_files(1) exampleArgs_scenario(1,2), of examplePrims]
  obtain sp :: MerkleProof and ap :: MerkleProof and ci where
    run: "provedInputs (fst (snd (generateWithdrawalProof examplePrims exampleEnv exampleGen exampleArgs)))
       = [ci]"
    and s1: "length (pf_siblings sp) \<le> 32 \<longrightarrow>
         fieldOf ''stateSiblings'' ci =
           Some (SigStrings (map toString
                  (pf_siblings sp @ replicate (32 - length (pf_siblings sp)) 0))) \<and>
         length (map toString (pf_siblings sp @ replicate (32 - length (pf_siblings sp)) 0)) = 32"
    and s2: "length (pf_siblings ap) \<le> 32 \<longrightarrow>
         fieldOf ''ASPSiblings'' ci =
           Some (SigStrings (map toString
                  (pf_siblings ap @ replicate (32 - length (pf_siblings ap)) 0))) \<and>
         length (map toString (pf_siblings ap @ replicate (32 - length (pf_siblings ap)) 0)) = 32"
    and scen: "length (arg_stateTreeCommitments exampleArgs) = 10 \<and>
       indexOf (arg_stateTreeCommitments exampleArgs) (arg_existingCommitmentHash exampleArgs) = 7 \<and>
       length (arg_aspTreeLabels exampleArgs) = 4 \<and>
       indexOf (arg_aspTreeLabels exampleArgs) (arg_label exampleArgs) = 2 \<longrightarrow>
         fieldOf ''stateTreeDepth'' ci = Some (SigString ''4'') \<and>
         fieldOf ''ASPTreeDepth'' ci = Some (SigString ''2'') \<and>
         fieldOf ''stateIndex'' ci = Some (SigNumber 7) \<and>
         fieldOf ''ASPIndex'' ci = Some (SigNumber 2) \<and>
         length (pf_siblings sp) = 4 \<and> length (pf_siblings ap) = 2"
    and dec: "nonNegativeArgs exampleArgs \<and> (\<forall>a b. 0 \<le> poseidon2 examplePrims a b)
         \<longrightarrow> decimalExceptIndices ci"
    by (elim exE conjE) (rule that; assumption)
  from scen exampleArgs_scenario(3,4,5,6) have f:
    "fieldOf ''stateTreeDepth'' ci = Some (SigString ''4'')"
    "fieldOf ''ASPTreeDepth'' ci = Some (SigString ''2'')"
    "fieldOf ''stateIndex'' ci = Some (SigNumber 7)"
    "fieldOf ''ASPIndex'' ci = Some (SigNumber 2)"
    "length (pf_siblings sp) = 4" "length (pf_siblings ap) = 2"
    by blast+
  from s1 f(5) have a:
    "fieldOf ''stateSiblings'' ci =
       Some (SigStrings (map toString (pf_siblings sp @ replicate (32 - length (pf_siblings sp)) 0)))"
    "length (map toString (pf_siblings sp @ replicate (32 - length (pf_siblings sp)) 0)) = 32"
    by simp_all
  from s2 f(6) have b:
    "fieldOf ''ASPSiblings'' ci =
       Some (SigStrings (map toString (pf_siblings ap @ replicate (32 - length (pf_siblings ap)) 0)))"
    "length (map toString (pf_siblings ap @ replicate (32 - length (pf_siblings ap)) 0)) = 32"
    by simp_all
  from dec exampleArgs_scenario(7,8) have d: "decimalExceptIndices ci" by blast
  from run f(1,2,3,4) a b d show ?thesis by blast
qed

theorem index_fields_are_numbers_counterexample:
  "map (fieldOf ''stateIndex'')
     (provedInputs (fst (snd (generateWithdrawalProof examplePrims exampleEnv exampleGen exampleArgs))))
     = [Some (SigNumber 7)] \<and>
   map (fieldOf ''ASPIndex'')
     (provedInputs (fst (snd (generateWithdrawalProof examplePrims exampleEnv exampleGen exampleArgs))))
     = [Some (SigNumber 2)] \<and>
   map allDecimalStrings
     (provedInputs (fst (snd (generateWithdrawalProof examplePrims exampleEnv exampleGen exampleArgs))))
     = [False]"
proof -
  from withdrawal_inputs[OF exampleEnv_files(1) exampleArgs_scenario(1,2), of examplePrims]
  obtain sp :: MerkleProof and ap :: MerkleProof and ci where
    run: "provedInputs (fst (snd (generateWithdrawalProof examplePrims exampleEnv exampleGen exampleArgs)))
       = [ci]"
    and scen: "length (arg_stateTreeCommitments exampleArgs) = 10 \<and>
       indexOf (arg_stateTreeCommitments exampleArgs) (arg_existingCommitmentHash exampleArgs) = 7 \<and>
       length (arg_aspTreeLabels exampleArgs) = 4 \<and>
       indexOf (arg_aspTreeLabels exampleArgs) (arg_label exampleArgs) = 2 \<longrightarrow>
         fieldOf ''stateTreeDepth'' ci = Some (SigString ''4'') \<and>
         fieldOf ''ASPTreeDepth'' ci = Some (SigString ''2'') \<and>
         fieldOf ''stateIndex'' ci = Some (SigNumber 7) \<and>
         fieldOf ''ASPIndex'' ci = Some (SigNumber 2) \<and>
         length (pf_siblings sp) = 4 \<and> length (pf_siblings ap) = 2"
    by (elim exE conjE) (rule that; assumption)
  from scen exampleArgs_scenario(3,4,5,6) have f:
    "fieldOf ''stateIndex'' ci = Some (SigNumber 7)"
    "fieldOf ''ASPIndex'' ci = Some (SigNumber 2)"
    by blast+
  from fieldOf_number_not_decimal[OF f(1)] have "\<not> allDecimalStrings ci" .
  then show ?thesis unfolding run using f by simp
qed

end
